theory Spec2Isabelle
  imports Complex_Main
begin

section \<open>JavaScript numbers\<close>

text \<open>
  A JavaScript \<open>number\<close> is an IEEE 754 double. The model carries a finite double as the
  real that it denotes, and every arithmetic operation of the source is the exact operation
  on the reals followed by \<open>fl\<close>, the rounding to the nearest double, a tie going to the
  even significand: \<^verbatim>\<open>a + b\<close> of the source is \<open>fl (a + b)\<close>, and so for \<^verbatim>\<open>-\<close>, \<^verbatim>\<open>*\<close>, \<^verbatim>\<open>/\<close>
  and \<open>Math.sqrt\<close>. A decimal literal that is no double (\<^verbatim>\<open>0.00001\<close>, \<^verbatim>\<open>0.01\<close>, \<^verbatim>\<open>0.001\<close>,
  \<^verbatim>\<open>0.8\<close>) is \<open>fl\<close> of its value; a literal that is a double (\<^verbatim>\<open>0.5\<close>, \<^verbatim>\<open>100\<close>, \<^verbatim>\<open>4000\<close>, ...) is
  written as it is. Comparisons, \<open>Math.abs\<close>, \<open>Math.floor\<close>, \<open>Math.round\<close> and the unary minus
  do not round.

  \<open>exponent x\<close> is the binary exponent of \<open>x\<close>, found by halving or doubling \<open>\<bar>x\<bar>\<close> until it
  lies between 1 and 2. It stays between the exponent of the subnormal numbers, -1022, and
  that of the largest double, 1023; in the range of the doubles it is the integer part of
  the binary logarithm (lemma \<open>exponent_log\<close>). \<open>ulp x\<close> is the distance between the doubles
  around \<open>x\<close>. Infinity, NaN and the sign of zero are not modelled: a result beyond the
  largest double stays the rounded real, and a division by zero is 0.

  A \<open>number\<close> that only ever counts (array lengths, loop indices, \<open>calcs\<close>, \<open>frameCount\<close>,
  \<open>totalCalcsRef\<close>, the ramp amount) is a \<open>nat\<close>: doubles count exactly below \<open>2 ^ 53\<close>.
  Results of \<open>Math.floor\<close> and \<open>Math.round\<close> are \<open>int\<close>.
\<close>

text \<open>The integer nearest to \<open>y\<close>, the even one of two that are equally near.\<close>

definition rne :: "real \<Rightarrow> int" where
  "rne y =
     (let f = \<lfloor>y\<rfloor>;
          r = y - real_of_int f
      in if r < 1/2 then f else if r > 1/2 then f + 1 else if even f then f else f + 1)"

primrec halvings :: "nat \<Rightarrow> real \<Rightarrow> nat" where
  "halvings 0 x = 0"
| "halvings (Suc n) x = (if 2 \<le> x then Suc (halvings n (x / 2)) else 0)"

primrec doublings :: "nat \<Rightarrow> real \<Rightarrow> nat" where
  "doublings 0 x = 0"
| "doublings (Suc n) x = (if x < 1 then Suc (doublings n (x * 2)) else 0)"

definition exponent :: "real \<Rightarrow> int" where
  "exponent x =
     (if 1 \<le> \<bar>x\<bar> then int (halvings 1023 \<bar>x\<bar>) else - int (doublings 1022 \<bar>x\<bar>))"

definition ulp :: "real \<Rightarrow> real" where
  "ulp x =
     (if 52 \<le> exponent x then 2 ^ nat (exponent x - 52) else 1 / 2 ^ nat (52 - exponent x))"

definition fl :: "real \<Rightarrow> real" where
  "fl x = (if x = 0 then 0 else real_of_int (rne (x / ulp x)) * ulp x)"

text \<open>
  \<open>Math.sqrt\<close> is correctly rounded. ECMAScript leaves the last place of \<open>Math.sin\<close>,
  \<open>Math.cos\<close> and \<open>Math.tan\<close> to the engine; the model takes the correctly rounded value.
  \<open>Math.PI\<close> is the double nearest to \<open>pi\<close>.
\<close>

definition Math_sqrt :: "real \<Rightarrow> real" where
  "Math_sqrt x = fl (sqrt x)"

definition Math_sin :: "real \<Rightarrow> real" where
  "Math_sin x = fl (sin x)"

definition Math_cos :: "real \<Rightarrow> real" where
  "Math_cos x = fl (cos x)"

definition Math_tan :: "real \<Rightarrow> real" where
  "Math_tan x = fl (tan x)"

definition Math_PI :: real where
  "Math_PI = fl pi"

text \<open>\<open>Math.round\<close> rounds to the nearest integer, a half towards plus infinity.\<close>

definition Math_round :: "real \<Rightarrow> int" where
  "Math_round v = \<lfloor>v + 1/2\<rfloor>"

text \<open>
  \<^verbatim>\<open>parseFloat(v.toFixed(1))\<close>: \<open>toFixed\<close> takes the integer \<open>n\<close> for which \<open>n / 10\<close> is nearest
  to the exact value of the double \<open>v\<close>, the larger \<open>n\<close> of two that are equally near, after
  setting the sign of a negative \<open>v\<close> aside; \<open>parseFloat\<close> reads the decimal back as a double.
\<close>

definition toFixed1 :: "real \<Rightarrow> real" where
  "toFixed1 v =
     (if v < 0 then - fl (real_of_int (Math_round (- v * 10)) / 10)
      else fl (real_of_int (Math_round (v * 10)) / 10))"

section \<open>Data model of the benchmark (src/App.tsx)\<close>

text \<open>
  The fields \<open>x\<close>, \<open>y\<close>, \<open>z\<close> of \<open>Vector3\<close> are named \<open>vec_x\<close>, \<open>vec_y\<close>, \<open>vec_z\<close>, and the
  field \<open>size\<close> of \<open>Body3D\<close> is named \<open>size3D\<close> (\<open>size\<close> is a constant of HOL).
\<close>

record Vector3 =
  vec_x :: real
  vec_y :: real
  vec_z :: real

record Body3D =
  pos :: Vector3
  vel :: Vector3
  mass :: real
  size3D :: real

record DataPoint =
  time :: real
  fps :: real
  particles :: nat

section \<open>Render surface (components/BenchmarkCanvas)\<close>

text \<open>
  The handle of \<open>BenchmarkCanvas\<close> has two getters that read the component's refs at the
  time of the call. \<open>canvasRefs.current\<close> of the application is \<open>null\<close> (\<open>None\<close>) until the
  handle is attached. What is drawn is not modelled: a canvas element is its two dimensions.
\<close>

record HTMLCanvasElement =
  width :: nat
  height :: nat

record CanvasRenderingContext2D =
  ctx_canvas :: HTMLCanvasElement

record CanvasRef =
  canvas :: "HTMLCanvasElement option"
  ctx :: "CanvasRenderingContext2D option"

record BenchmarkCanvas =
  canvasRef :: "HTMLCanvasElement option"
  ctxRef :: "CanvasRenderingContext2D option"

definition useImperativeHandle :: "BenchmarkCanvas \<Rightarrow> CanvasRef" where
  "useImperativeHandle c = \<lparr>canvas = canvasRef c, ctx = ctxRef c\<rparr>"

text \<open>
  The mount effect; \<open>getContext\<close> is the browser's answer to \<^verbatim>\<open>canvas.getContext('2d')\<close>.
  The result is the text written with \<open>console.error\<close> and the component.
\<close>

definition mountEffect ::
  "(HTMLCanvasElement \<Rightarrow> CanvasRenderingContext2D option) \<Rightarrow> BenchmarkCanvas
     \<Rightarrow> string list \<times> BenchmarkCanvas" where
  "mountEffect getContext c =
     (case canvasRef c of
        None \<Rightarrow> ([], c)
      | Some cv \<Rightarrow>
          (let c' = c\<lparr>ctxRef := getContext cv\<rparr>
           in if ctxRef c' = None
              then ([''Failed to get 2D rendering context for canvas.''], c')
              else ([], c')))"

section \<open>Application state\<close>

text \<open>
  One record holds the React states, the refs and the variables that \<open>startBenchmark\<close>
  declares and \<open>loop\<close> captures (\<open>startTime\<close>, \<open>endTime\<close>, \<open>lastMetricTime\<close>, \<open>frameCount\<close>).
  The state \<open>fps\<close> is named \<open>fpsState\<close> (\<open>fps\<close> is the field of \<open>DataPoint\<close>). A state setter is
  a field update. Of \<open>animationFrameIdRef\<close> the model keeps whether a request for \<open>loop\<close> is
  pending (\<open>framePending\<close>). \<open>randomCalls\<close> counts the calls of \<open>Math.random\<close> so far; the
  values it returns are the parameter \<open>random\<close> of the functions below, the \<open>k\<close>-th call
  returning \<open>random k\<close>. \<open>TEST_DURATION_MS\<close> (./constants) is a parameter as well.
\<close>

record App =
  timer :: real
  fpsState :: int
  particleCount :: nat
  isRunning :: bool
  progress :: real
  showResults :: bool
  history :: "DataPoint list"
  finalScore :: int
  peakParticles :: nat
  avgFps :: int
  historyRef :: "DataPoint list"
  bodiesRef :: "Body3D list"
  framePending :: bool
  totalCalcsRef :: nat
  startTime :: real
  endTime :: real
  lastMetricTime :: real
  frameCount :: nat
  randomCalls :: nat

definition initialApp :: App where
  "initialApp =
     \<lparr>timer = 0, fpsState = 0, particleCount = 0, isRunning = False, progress = 0,
      showResults = False, history = [], finalScore = 0, peakParticles = 0, avgFps = 0,
      historyRef = [], bodiesRef = [], framePending = False, totalCalcsRef = 0,
      startTime = 0, endTime = 0, lastMetricTime = 0, frameCount = 0, randomCalls = 0\<rparr>"

text \<open>The three states of the run controller, read off \<open>isRunning\<close> and \<open>showResults\<close>.\<close>

datatype RunState = Idle | Running | Finished

definition runState :: "App \<Rightarrow> RunState" where
  "runState s = (if isRunning s then Running else if showResults s then Finished else Idle)"

section \<open>Spawning\<close>

text \<open>
  One pass of the loop of \<open>addParticles\<close>: six calls of \<open>Math.random\<close>, in the order
  \<open>angle\<close>, \<open>r\<close>, \<open>pos.y\<close>, \<open>vel.y\<close>, \<open>mass\<close>, \<open>size\<close>; \<open>k\<close> is the number of calls made before.
\<close>

definition spawn :: "(nat \<Rightarrow> real) \<Rightarrow> nat \<Rightarrow> Body3D" where
  "spawn random k =
     (let angle = fl (fl (random k * Math_PI) * 2);
          r = fl (random (k + 1) * 400)
      in \<lparr>pos = \<lparr>vec_x = fl (Math_cos angle * r),
                 vec_y = fl (fl (random (k + 2) - 0.5) * 200),
                 vec_z = fl (Math_sin angle * r)\<rparr>,
          vel = \<lparr>vec_x = fl (Math_sin angle * 3),
                 vec_y = fl (fl (random (k + 3) - 0.5) * 2),
                 vec_z = fl (- Math_cos angle * 3)\<rparr>,
          mass = fl (fl (random (k + 4) * 3) + 1),
          size3D = fl (fl (random (k + 5) * 4) + 2)\<rparr>)"

text \<open>\<^verbatim>\<open>for(let i=0; i<count; i++) { bodiesRef.current.push({...}); }\<close>\<close>

fun addParticles :: "(nat \<Rightarrow> real) \<Rightarrow> nat \<Rightarrow> App \<Rightarrow> App" where
  "addParticles random 0 s = s"
| "addParticles random (Suc count) s =
     addParticles random count
       (s\<lparr>bodiesRef := bodiesRef s @ [spawn random (randomCalls s)],
          randomCalls := randomCalls s + 6\<rparr>)"

section \<open>Physics engine\<close>

text \<open>
  \<open>updatePhysics\<close> works on the array \<open>bodiesRef.current\<close> in place. The model passes the
  array as a list and returns the new list together with \<open>calcs\<close>. \<open>bodyA\<close> and \<open>bodyB\<close> are
  references to the objects at indices \<open>i\<close> and \<open>j\<close> (\<open>i < j < len\<close>, so they are two different
  objects); a write through one of them is a list update at that index.
\<close>

definition G :: real where
  "G = 0.5"

definition centerPull :: real where
  "centerPull = fl 0.00001"

text \<open>
  \<^verbatim>\<open>const stride = len > 8000 ? Math.ceil(len / 4000) : 1;\<close>
  The quotient of an array length by 4000 is either an integer or at least \<open>1 / 4000\<close> away
  from one, which is far more than its rounding moves it: the ceiling of the rounded
  quotient is that of the exact one (lemma \<open>stride_rounded\<close>), and the model takes the
  exact one.
\<close>

definition stride_of :: "nat \<Rightarrow> nat" where
  "stride_of len = (if len > 8000 then nat \<lceil>real len / 4000\<rceil> else 1)"

text \<open>
  Center attraction: \<^verbatim>\<open>bodyA.vel.x -= bodyA.pos.x * centerPull\<close>, and so for y and z.
  The source also computes \<open>distFromCenterSq\<close> here and never reads it.
\<close>

definition centerAttraction :: "Body3D \<Rightarrow> Body3D" where
  "centerAttraction bodyA =
     bodyA\<lparr>vel := \<lparr>vec_x = fl (vec_x (vel bodyA) - fl (vec_x (pos bodyA) * centerPull)),
                   vec_y = fl (vec_y (vel bodyA) - fl (vec_y (pos bodyA) * centerPull)),
                   vec_z = fl (vec_z (vel bodyA) - fl (vec_z (pos bodyA) * centerPull))\<rparr>\<rparr>"

text \<open>
  The body of the inner loop up to the force components. \<open>gravity\<close> is the summand
  \<^verbatim>\<open>(dx / dist) * force\<close> of each component and \<open>stress\<close> the transcendental load; the
  force \<^verbatim>\<open>fx = (dx / dist) * force + (stress * 0.00001)\<close> is their sum.
\<close>

definition gravity :: "Body3D \<Rightarrow> Body3D \<Rightarrow> Vector3" where
  "gravity bodyA bodyB =
     (let dx = fl (vec_x (pos bodyB) - vec_x (pos bodyA));
          dy = fl (vec_y (pos bodyB) - vec_y (pos bodyA));
          dz = fl (vec_z (pos bodyB) - vec_z (pos bodyA));
          distSq = fl (fl (fl (fl (dx*dx) + fl (dy*dy)) + fl (dz*dz)) + 100);
          dist = Math_sqrt distSq;
          force = fl (fl (fl (G * mass bodyA) * mass bodyB) / distSq)
      in \<lparr>vec_x = fl (fl (dx / dist) * force),
          vec_y = fl (fl (dy / dist) * force),
          vec_z = fl (fl (dz / dist) * force)\<rparr>)"

definition stress :: "Body3D \<Rightarrow> Body3D \<Rightarrow> real" where
  "stress bodyA bodyB =
     (let dx = fl (vec_x (pos bodyB) - vec_x (pos bodyA));
          dy = fl (vec_y (pos bodyB) - vec_y (pos bodyA));
          dz = fl (vec_z (pos bodyB) - vec_z (pos bodyA))
      in fl (fl (Math_sin (fl (dx * fl 0.01)) * Math_cos (fl (dy * fl 0.01)))
             + Math_tan (fl (dz * fl 0.001))))"

definition pairForce :: "Body3D \<Rightarrow> Body3D \<Rightarrow> Vector3" where
  "pairForce bodyA bodyB =
     \<lparr>vec_x = fl (vec_x (gravity bodyA bodyB) + fl (stress bodyA bodyB * fl 0.00001)),
      vec_y = fl (vec_y (gravity bodyA bodyB) + fl (stress bodyA bodyB * fl 0.00001)),
      vec_z = fl (vec_z (gravity bodyA bodyB) + fl (stress bodyA bodyB * fl 0.00001))\<rparr>"

text \<open>\<^verbatim>\<open>bodyA.vel.x += fx / bodyA.mass\<close> and \<^verbatim>\<open>bodyB.vel.x -= fx / bodyB.mass\<close>, and so for y and z.\<close>

definition pushA :: "Vector3 \<Rightarrow> Body3D \<Rightarrow> Body3D" where
  "pushA f bodyA =
     bodyA\<lparr>vel := \<lparr>vec_x = fl (vec_x (vel bodyA) + fl (vec_x f / mass bodyA)),
                   vec_y = fl (vec_y (vel bodyA) + fl (vec_y f / mass bodyA)),
                   vec_z = fl (vec_z (vel bodyA) + fl (vec_z f / mass bodyA))\<rparr>\<rparr>"

definition pullB :: "Vector3 \<Rightarrow> Body3D \<Rightarrow> Body3D" where
  "pullB f bodyB =
     bodyB\<lparr>vel := \<lparr>vec_x = fl (vec_x (vel bodyB) - fl (vec_x f / mass bodyB)),
                   vec_y = fl (vec_y (vel bodyB) - fl (vec_y f / mass bodyB)),
                   vec_z = fl (vec_z (vel bodyB) - fl (vec_z f / mass bodyB))\<rparr>\<rparr>"

definition interact :: "Body3D \<Rightarrow> Body3D \<Rightarrow> Body3D \<times> Body3D" where
  "interact bodyA bodyB =
     (let f = pairForce bodyA bodyB in (pushA f bodyA, pullB f bodyB))"

text \<open>One pass through the body of the inner loop, for the pair of indices \<open>i\<close>, \<open>j\<close>.\<close>

definition pairStep :: "nat \<Rightarrow> nat \<Rightarrow> Body3D list \<Rightarrow> Body3D list" where
  "pairStep i j bodies =
     (let (bodyA, bodyB) = interact (bodies ! i) (bodies ! j)
      in bodies[i := bodyA, j := bodyB])"

text \<open>
  \<^verbatim>\<open>for (let j = i + 1; j < len; j+=stride) { ...; calcs++; }\<close>
  The loop is entered at \<open>j\<close> and returns the store and \<open>calcs\<close>. With \<open>stride = 0\<close> it would
  not return; the function is partial, and \<open>None\<close> is the run that never ends.
\<close>

partial_function (option) innerLoop ::
  "nat \<Rightarrow> nat \<Rightarrow> nat \<Rightarrow> nat \<Rightarrow> Body3D list \<Rightarrow> nat \<Rightarrow> (Body3D list \<times> nat) option" where
  "innerLoop stride len i j bodies calcs =
     (if j < len then innerLoop stride len i (j + stride) (pairStep i j bodies) (calcs + 1)
      else Some (bodies, calcs))"

text \<open>Integration: \<^verbatim>\<open>bodyA.pos.x += bodyA.vel.x * dt\<close>, and so for y and z.\<close>

definition integrate :: "real \<Rightarrow> Body3D \<Rightarrow> Body3D" where
  "integrate dt bodyA =
     bodyA\<lparr>pos := \<lparr>vec_x = fl (vec_x (pos bodyA) + fl (vec_x (vel bodyA) * dt)),
                   vec_y = fl (vec_y (pos bodyA) + fl (vec_y (vel bodyA) * dt)),
                   vec_z = fl (vec_z (pos bodyA) + fl (vec_z (vel bodyA) * dt))\<rparr>\<rparr>"

text \<open>Soft bounds: \<^verbatim>\<open>if(Math.abs(bodyA.pos.x) > 4000) bodyA.vel.x *= -0.8;\<close>, and so for y and z.\<close>

definition bounce :: "real \<Rightarrow> real \<Rightarrow> real" where
  "bounce p v = (if \<bar>p\<bar> > 4000 then fl (v * (- fl 0.8)) else v)"

definition softBounds :: "Body3D \<Rightarrow> Body3D" where
  "softBounds bodyA =
     bodyA\<lparr>vel := \<lparr>vec_x = bounce (vec_x (pos bodyA)) (vec_x (vel bodyA)),
                   vec_y = bounce (vec_y (pos bodyA)) (vec_y (vel bodyA)),
                   vec_z = bounce (vec_z (pos bodyA)) (vec_z (vel bodyA))\<rparr>\<rparr>"

text \<open>
  \<^verbatim>\<open>for (let i = 0; i < len; i++) { center attraction; inner loop; integration; soft bounds }\<close>
\<close>

partial_function (option) outerLoop ::
  "real \<Rightarrow> nat \<Rightarrow> nat \<Rightarrow> nat \<Rightarrow> Body3D list \<Rightarrow> nat \<Rightarrow> (Body3D list \<times> nat) option" where
  "outerLoop dt stride len i bodies calcs =
     (if i < len then
        (case innerLoop stride len i (i + 1) (bodies[i := centerAttraction (bodies ! i)]) calcs of
           None \<Rightarrow> None
         | Some (bodies', calcs') \<Rightarrow>
             outerLoop dt stride len (i + 1)
               (bodies'[i := softBounds (integrate dt (bodies' ! i))]) calcs')
      else Some (bodies, calcs))"

definition updatePhysics :: "real \<Rightarrow> Body3D list \<Rightarrow> (Body3D list \<times> nat) option" where
  "updatePhysics dt bodies =
     (let len = length bodies;
          stride = stride_of len
      in outerLoop dt stride len 0 bodies 0)"

section \<open>Load ramping\<close>

text \<open>
  \<^verbatim>\<open>const rampAmount = currentFps > 45 ? 1000 : (currentFps < 15 ? 100 : 400);\<close>
\<close>

definition rampAmount :: "real \<Rightarrow> nat" where
  "rampAmount currentFps =
     (if currentFps > 45 then 1000 else (if currentFps < 15 then 100 else 400))"

section \<open>Run controller\<close>

text \<open>\<^verbatim>\<open>const { canvas, ctx } = canvasRefs.current || {}; if (!canvas || !ctx) ...\<close>\<close>

definition surfaceReady :: "CanvasRef option \<Rightarrow> bool" where
  "surfaceReady canvasRefs =
     (case canvasRefs of None \<Rightarrow> False | Some r \<Rightarrow> canvas r \<noteq> None \<and> ctx r \<noteq> None)"

text \<open>
  \<open>startBenchmark\<close>, called at the clock value \<open>now\<close> (\<open>Date.now()\<close>). The result is the text
  written with \<open>console.error\<close> during the call and the state after it.
\<close>

definition startBenchmark ::
  "real \<Rightarrow> (nat \<Rightarrow> real) \<Rightarrow> CanvasRef option \<Rightarrow> real \<Rightarrow> App \<Rightarrow> string list \<times> App" where
  "startBenchmark TEST_DURATION_MS random canvasRefs now s =
     (if isRunning s then ([], s)
      else if \<not> surfaceReady canvasRefs then ([''Canvas context not ready''], s)
      else
        (let s1 = s\<lparr>isRunning := True, showResults := False, historyRef := [],
                    bodiesRef := [], totalCalcsRef := 0\<rparr>;
             s2 = addParticles random 2500 s1
         in ([], s2\<lparr>startTime := now, endTime := fl (now + TEST_DURATION_MS),
                     lastMetricTime := now, frameCount := 0, framePending := True\<rparr>)))"

text \<open>
  \<^verbatim>\<open>const avg = data.length > 0 ? data.reduce((acc, curr) => acc + curr.fps, 0) / data.length : 0;\<close>
\<close>

definition average :: "DataPoint list \<Rightarrow> real" where
  "average data =
     (if length data > 0
      then fl (foldl (\<lambda>acc curr. fl (acc + fps curr)) 0 data / real (length data))
      else 0)"

text \<open>
  \<^verbatim>\<open>const score = Math.floor((totalCalcsRef.current / 100000) * (avg / 60));\<close>
\<close>

definition finish :: "App \<Rightarrow> App" where
  "finish s =
     (let data = historyRef s;
          avg = average data;
          peak = length (bodiesRef s);
          score = \<lfloor>fl (fl (real (totalCalcsRef s) / 100000) * fl (avg / 60))\<rfloor>
      in s\<lparr>framePending := False, isRunning := False, showResults := True,
           history := data, avgFps := Math_round avg, peakParticles := peak,
           finalScore := score\<rparr>)"

text \<open>The block "1. Load Ramping Logic" of \<open>loop\<close>.\<close>

definition rampLogic :: "real \<Rightarrow> (nat \<Rightarrow> real) \<Rightarrow> real \<Rightarrow> App \<Rightarrow> App" where
  "rampLogic TEST_DURATION_MS random now s =
     (let elapsed = fl (now - startTime s)
      in if now > fl (lastMetricTime s + 500) then
           (let currentFps = fl (fl (real (frameCount s) * 1000) / fl (now - lastMetricTime s));
                s1 = s\<lparr>fpsState := Math_round currentFps,
                       timer := toFixed1 (fl (elapsed / 1000)),
                       progress := fl (fl (elapsed / TEST_DURATION_MS) * 100),
                       particleCount := length (bodiesRef s)\<rparr>;
                s2 = s1\<lparr>historyRef := historyRef s1 @
                         [\<lparr>time = fl (elapsed / 1000), fps = currentFps,
                           particles = length (bodiesRef s1)\<rparr>]\<rparr>;
                s3 = addParticles random (rampAmount currentFps) s2
            in s3\<lparr>lastMetricTime := now, frameCount := 0\<rparr>)
         else s)"

text \<open>\<^verbatim>\<open>if (!canvasRefs.current?.ctx)\<close>\<close>

definition ctxReady :: "CanvasRef option \<Rightarrow> bool" where
  "ctxReady canvasRefs = (case canvasRefs of None \<Rightarrow> False | Some r \<Rightarrow> ctx r \<noteq> None)"

text \<open>
  One call of \<open>loop\<close> by the browser, at the clock value \<open>now\<close>. The block "3. Render" draws
  the bodies and changes nothing in the state; it is left out. \<open>None\<close> is a call that does
  not return, which only the physics engine could cause.
\<close>

definition loop ::
  "real \<Rightarrow> (nat \<Rightarrow> real) \<Rightarrow> CanvasRef option \<Rightarrow> real \<Rightarrow> App \<Rightarrow> App option" where
  "loop TEST_DURATION_MS random canvasRefs now s =
     (if \<not> ctxReady canvasRefs then Some (s\<lparr>framePending := True\<rparr>)
      else
        (let s1 = rampLogic TEST_DURATION_MS random now s
         in if now \<ge> endTime s1 then Some (finish s1)
            else
              (case updatePhysics 0.5 (bodiesRef s1) of
                 None \<Rightarrow> None
               | Some (bodies, calcs) \<Rightarrow>
                   Some (s1\<lparr>frameCount := frameCount s1 + 1, bodiesRef := bodies,
                            totalCalcsRef := totalCalcsRef s1 + calcs,
                            framePending := True\<rparr>))))"

text \<open>
  A sequence of animation frames: each frame gives the handle and the clock value that
  \<open>loop\<close> finds. \<open>loop\<close> runs on a frame only if a request is pending.
\<close>

fun frames ::
  "real \<Rightarrow> (nat \<Rightarrow> real) \<Rightarrow> (CanvasRef option \<times> real) list \<Rightarrow> App \<Rightarrow> App option" where
  "frames TEST_DURATION_MS random [] s = Some s"
| "frames TEST_DURATION_MS random ((canvasRefs, now) # fs) s =
     (if framePending s then
        (case loop TEST_DURATION_MS random canvasRefs now s of
           None \<Rightarrow> None
         | Some s' \<Rightarrow> frames TEST_DURATION_MS random fs s')
      else Some s)"

section \<open>Definitions that follow the specification\<close>

text \<open>
  The count that the specification gives for one call of the integrator on \<open>n\<close> bodies with
  stride \<open>s\<close>: for each \<open>i\<close>, the number of \<open>j\<close> in \<open>i+1 .. n-1\<close> of the form \<open>i + 1 + k * s\<close>.
\<close>

definition pairsVisited :: "nat \<Rightarrow> nat \<Rightarrow> nat" where
  "pairsVisited n s = (\<Sum>i<n. card {j. i < j \<and> j < n \<and> (\<exists>k. j = i + 1 + k * s)})"

text \<open>
  The arithmetic mean of the recorded fps samples, zero if no sample was recorded, as the
  specification defines \<open>averageFps\<close>; the sum and the quotient are exact.
\<close>

definition meanFps :: "DataPoint list \<Rightarrow> real" where
  "meanFps data = (if data = [] then 0 else sum_list (map fps data) / real (length data))"

text \<open>
  One call of \<open>loop\<close> in the order that section 4.4 of the specification gives for a tick:
  the sampling check and the ramp, then one integration step whose count is accumulated,
  and only then the termination check.
\<close>

definition loopAsClaimed ::
  "real \<Rightarrow> (nat \<Rightarrow> real) \<Rightarrow> CanvasRef option \<Rightarrow> real \<Rightarrow> App \<Rightarrow> App option" where
  "loopAsClaimed TEST_DURATION_MS random canvasRefs now s =
     (if \<not> ctxReady canvasRefs then Some (s\<lparr>framePending := True\<rparr>)
      else
        (let s1 = rampLogic TEST_DURATION_MS random now s
         in case updatePhysics 0.5 (bodiesRef s1) of
              None \<Rightarrow> None
            | Some (bodies, calcs) \<Rightarrow>
                (let s2 = s1\<lparr>frameCount := frameCount s1 + 1, bodiesRef := bodies,
                            totalCalcsRef := totalCalcsRef s1 + calcs\<rparr>
                 in if now \<ge> endTime s2 then Some (finish s2)
                    else Some (s2\<lparr>framePending := True\<rparr>))))"

section \<open>Closed form of one call of the integrator\<close>

text \<open>
  \<open>visits n s i j\<close>: on a store of \<open>n\<close> bodies with stride \<open>s\<close>, the inner loop of body \<open>i\<close>
  reaches index \<open>j\<close>. \<open>visited\<close> lists the \<open>j\<close> that body \<open>i\<close> reaches and \<open>visitedFrom\<close> the \<open>i\<close>
  that reach body \<open>j\<close>, both in increasing order, which is the order of the loops.
\<close>

definition visits :: "nat \<Rightarrow> nat \<Rightarrow> nat \<Rightarrow> nat \<Rightarrow> bool" where
  "visits n s i j \<longleftrightarrow> i < j \<and> j < n \<and> (j - (i + 1)) mod s = 0"

definition visited :: "nat \<Rightarrow> nat \<Rightarrow> nat \<Rightarrow> nat list" where
  "visited n s i = filter (visits n s i) [0..<n]"

definition visitedFrom :: "nat \<Rightarrow> nat \<Rightarrow> nat \<Rightarrow> nat list" where
  "visitedFrom n s j = filter (\<lambda>i. visits n s i j) [0..<n]"

text \<open>
  What counts as a component of a vector, and one component \<open>c\<close> of the velocity that body
  \<open>k\<close> has when it is integrated. The body starts from the velocity it came with. Every
  earlier body \<open>i\<close> that reaches it subtracts the force of the pair \<open>(i, k)\<close>, in the order of
  \<open>i\<close>; then the center attraction is subtracted once; then every \<open>j\<close> that body \<open>k\<close> reaches
  adds the force of the pair \<open>(k, j)\<close>, in the order of \<open>j\<close>. Each force is divided by the
  mass of body \<open>k\<close>, every operation rounds, and all forces are those between the bodies as
  they were before the call.
\<close>

definition component :: "(Vector3 \<Rightarrow> real) \<Rightarrow> bool" where
  "component c \<longleftrightarrow> c = vec_x \<or> c = vec_y \<or> c = vec_z"

definition accumulated :: "(Vector3 \<Rightarrow> real) \<Rightarrow> nat \<Rightarrow> Body3D list \<Rightarrow> nat \<Rightarrow> real" where
  "accumulated c s bodies k =
     foldl (\<lambda>v j. fl (v + fl (c (pairForce (bodies ! k) (bodies ! j)) / mass (bodies ! k))))
       (fl (foldl (\<lambda>v i. fl (v - fl (c (pairForce (bodies ! i) (bodies ! k)) / mass (bodies ! k))))
              (c (vel (bodies ! k))) (visitedFrom (length bodies) s k)
            - fl (c (pos (bodies ! k)) * centerPull)))
       (visited (length bodies) s k)"

definition accumulatedVel :: "Body3D list \<Rightarrow> nat \<Rightarrow> Vector3" where
  "accumulatedVel bodies k =
     (let s = stride_of (length bodies)
      in \<lparr>vec_x = accumulated vec_x s bodies k,
          vec_y = accumulated vec_y s bodies k,
          vec_z = accumulated vec_z s bodies k\<rparr>)"

section \<open>Concrete inputs\<close>

text \<open>
  A body at rest at the origin; a body beyond the bound on the x axis that moves outwards;
  two bodies at rest, 24 apart on the y axis, of masses 1.5 and 1.8; and an attached,
  ready render surface.
\<close>

definition restBody :: Body3D where
  "restBody =
     \<lparr>pos = \<lparr>vec_x = 0, vec_y = 0, vec_z = 0\<rparr>, vel = \<lparr>vec_x = 0, vec_y = 0, vec_z = 0\<rparr>,
      mass = 1, size3D = 2\<rparr>"

definition edgeBody :: Body3D where
  "edgeBody =
     \<lparr>pos = \<lparr>vec_x = 4096, vec_y = 0, vec_z = 0\<rparr>, vel = \<lparr>vec_x = 16, vec_y = 0, vec_z = 0\<rparr>,
      mass = 1, size3D = 2\<rparr>"

definition lightBody :: Body3D where
  "lightBody =
     \<lparr>pos = \<lparr>vec_x = 0, vec_y = 0, vec_z = 0\<rparr>, vel = \<lparr>vec_x = 0, vec_y = 0, vec_z = 0\<rparr>,
      mass = 3/2, size3D = 2\<rparr>"

definition heavyBody :: Body3D where
  "heavyBody =
     \<lparr>pos = \<lparr>vec_x = 0, vec_y = 24, vec_z = 0\<rparr>, vel = \<lparr>vec_x = 0, vec_y = 0, vec_z = 0\<rparr>,
      mass = fl (9/5), size3D = 2\<rparr>"

definition readyCanvas :: "CanvasRef option" where
  "readyCanvas =
     Some \<lparr>canvas = Some \<lparr>width = 800, height = 600\<rparr>,
           ctx = Some \<lparr>ctx_canvas = \<lparr>width = 800, height = 600\<rparr>\<rparr>\<rparr>"

text \<open>
  States of a run that has reached its end time of 1000 with the last sample taken at 900:
  one with 500000 evaluations and one sample of 30 fps; one with 18000000 evaluations and
  one sample of 21 fps; one whose only sample is 62.5 fps (35 frames in 560 ms); one with
  the three samples of 24 frames in 525 ms, 23 frames in 560 ms and 6 frames in 560 ms; and
  one holding two bodies at rest.
\<close>

definition scoreApp :: App where
  "scoreApp = initialApp\<lparr>isRunning := True, historyRef := [\<lparr>time = 1/2, fps = 30, particles = 2500\<rparr>],
     totalCalcsRef := 500000, endTime := 1000, lastMetricTime := 900, framePending := True\<rparr>"


definition roundApp :: App where
  "roundApp = initialApp\<lparr>isRunning := True,
     historyRef := [\<lparr>time = fl (14/25), fps = 125/2, particles = 2500\<rparr>],
     totalCalcsRef := 6000000, endTime := 1000, lastMetricTime := 900, framePending := True\<rparr>"

definition driftApp :: App where
  "driftApp = initialApp\<lparr>isRunning := True,
     historyRef := [\<lparr>time = fl (21/40), fps = fl (24000/525), particles = 2500\<rparr>,
                    \<lparr>time = fl (217/200), fps = fl (23000/560), particles = 3500\<rparr>,
                    \<lparr>time = fl (329/200), fps = fl (6000/560), particles = 3900\<rparr>],
     totalCalcsRef := 6000000, endTime := 1000, lastMetricTime := 900, framePending := True\<rparr>"

definition lastFrame :: App where
  "lastFrame = initialApp\<lparr>isRunning := True, bodiesRef := [restBody, restBody],
     endTime := 1000, lastMetricTime := 900, framePending := True\<rparr>"

section \<open>Rounding to a double\<close>

lemma fl_zero [simp]: "fl 0 = 0"
  by (simp add: fl_def)

lemma ulp_pos: "0 < ulp x"
  by (simp add: ulp_def)

lemma rne_of_int [simp]: "rne (real_of_int m) = m"
  by (simp add: rne_def)

lemma rne_error: "\<bar>real_of_int (rne y) - y\<bar> \<le> 1/2"
  unfolding rne_def Let_def by (simp split: if_splits)

lemma halvings_eq: "2 ^ e \<le> x \<Longrightarrow> x < 2 * 2 ^ e \<Longrightarrow> e \<le> n \<Longrightarrow> halvings n x = e"
proof (induction e arbitrary: n x)
  case 0
  then show ?case by (cases n) simp_all
next
  case (Suc e)
  from Suc.prems(3) obtain m where n: "n = Suc m" and m: "e \<le> m" by (cases n) simp_all
  have "(1::real) \<le> 2 ^ e" by simp
  then have "(2::real) \<le> 2 ^ Suc e" by simp
  with Suc.prems(1) have 2: "2 \<le> x" by linarith
  have "halvings m (x / 2) = e"
    using Suc.prems(1,2) m by (intro Suc.IH) simp_all
  with 2 show ?case by (simp add: n)
qed

lemma halvings_le: "x < 2 * 2 ^ e \<Longrightarrow> halvings n x \<le> e"
proof (induction n arbitrary: e x)
  case 0
  show ?case by simp
next
  case (Suc n)
  show ?case
  proof (cases "2 \<le> x")
    case False
    then show ?thesis by simp
  next
    case True
    with Suc.prems obtain e' where e: "e = Suc e'" by (cases e) simp_all
    have "halvings n (x / 2) \<le> e'" using Suc.prems by (intro Suc.IH) (simp add: e)
    with True show ?thesis by (simp add: e)
  qed
qed

lemma doublings_eq: "1 \<le> x * 2 ^ k \<Longrightarrow> x * 2 ^ k < 2 \<Longrightarrow> k \<le> n \<Longrightarrow> doublings n x = k"
proof (induction k arbitrary: n x)
  case 0
  then show ?case by (cases n) simp_all
next
  case (Suc k)
  from Suc.prems(3) obtain m where n: "n = Suc m" and m: "k \<le> m" by (cases n) simp_all
  have "(1::real) \<le> 2 ^ k" by simp
  then have "x * 2 \<le> x * 2 * 2 ^ k \<or> x \<le> 0"
    by (simp add: mult_le_cancel_left1)
  with Suc.prems(2) have 1: "x < 1" by (auto simp: mult.assoc)
  have "doublings m (x * 2) = k"
    using Suc.prems(1,2) m by (intro Suc.IH) (simp_all add: mult.assoc)
  with 1 show ?case by (simp add: n)
qed

lemma exponent_up:
  assumes "2 ^ e \<le> \<bar>x\<bar>" "\<bar>x\<bar> < 2 * 2 ^ e" "e \<le> 1023"
  shows "exponent x = int e"
proof -
  have "(1::real) \<le> 2 ^ e" by simp
  with assms(1) have "1 \<le> \<bar>x\<bar>" by linarith
  moreover have "halvings 1023 \<bar>x\<bar> = e" using assms by (rule halvings_eq)
  ultimately show ?thesis by (simp add: exponent_def)
qed

lemma exponent_down:
  assumes "1 \<le> \<bar>x\<bar> * 2 ^ k" "\<bar>x\<bar> * 2 ^ k < 2" "k \<le> 1022"
  shows "exponent x = - int k"
proof (cases k)
  case 0
  with assms have "2 ^ 0 \<le> \<bar>x\<bar>" "\<bar>x\<bar> < 2 * 2 ^ 0" by simp_all
  then have "exponent x = int 0" by (rule exponent_up) simp
  with 0 show ?thesis by simp
next
  case (Suc k')
  have "(2::real) \<le> 2 ^ k" by (simp add: Suc)
  then have "\<bar>x\<bar> * 2 \<le> \<bar>x\<bar> * 2 ^ k" by (intro mult_left_mono) simp_all
  with assms(2) have "\<not> 1 \<le> \<bar>x\<bar>" by linarith
  moreover have "doublings 1022 \<bar>x\<bar> = k" using assms by (rule doublings_eq)
  ultimately show ?thesis by (simp add: exponent_def)
qed

lemma exponent_range: "- 1022 \<le> exponent x" "exponent x \<le> 1023"
proof -
  have d: "doublings n y \<le> n" for n y by (induction n arbitrary: y) simp_all
  have h: "halvings n y \<le> n" for n y by (induction n arbitrary: y) simp_all
  show "- 1022 \<le> exponent x" using d [of 1022 "\<bar>x\<bar>"] by (simp add: exponent_def)
  show "exponent x \<le> 1023" using h [of 1023 "\<bar>x\<bar>"] by (simp add: exponent_def)
qed

lemma ulp_powr: "ulp x = 2 powr (real_of_int (exponent x) - 52)"
proof (cases "52 \<le> exponent x")
  case True
  then have "real_of_int (exponent x) - 52 = real (nat (exponent x - 52))" by simp
  then have "2 powr (real_of_int (exponent x) - 52) = 2 ^ nat (exponent x - 52)"
    by (simp only: powr_realpow [OF zero_less_numeral])
  with True show ?thesis by (simp add: ulp_def)
next
  case False
  then have "real_of_int (exponent x) - 52 = - real (nat (52 - exponent x))" by simp
  then have "2 powr (real_of_int (exponent x) - 52) = 1 / 2 ^ nat (52 - exponent x)"
    by (simp only: powr_minus powr_realpow [OF zero_less_numeral] inverse_eq_divide)
  with False show ?thesis by (simp add: ulp_def)
qed

text \<open>In the range of the doubles the exponent is the integer part of the binary logarithm.\<close>

lemma exponent_log:
  assumes "2 powr (- 1022) \<le> \<bar>x\<bar>" "\<bar>x\<bar> < 2 powr 1024"
  shows "exponent x = \<lfloor>log 2 \<bar>x\<bar>\<rfloor>"
proof -
  define e where "e = \<lfloor>log 2 \<bar>x\<bar>\<rfloor>"
  have pos: "0 < \<bar>x\<bar>" using assms(1) by (smt (verit) powr_gt_zero)
  then have b: "2 powr real_of_int e \<le> \<bar>x\<bar>" "\<bar>x\<bar> < 2 powr (real_of_int e + 1)"
    using floor_log_eq_powr_iff [of "\<bar>x\<bar>" 2 e] by (simp_all add: e_def)
  have "log 2 \<bar>x\<bar> < 1024" using pos assms(2) by (simp add: log_less_iff)
  then have hi: "e \<le> 1023" unfolding e_def by linarith
  have "- 1022 \<le> log 2 \<bar>x\<bar>" using pos assms(1) by (simp add: le_log_iff)
  then have lo: "- 1022 \<le> e" unfolding e_def by linarith
  show ?thesis
  proof (cases "0 \<le> e")
    case True
    define n where "n = nat e"
    have e: "real_of_int e = real n" using True by (simp add: n_def)
    have "2 ^ n \<le> \<bar>x\<bar>" "\<bar>x\<bar> < 2 * 2 ^ n"
      using b unfolding e by (simp_all add: powr_realpow powr_add)
    moreover have "n \<le> 1023" using hi by (simp add: n_def)
    ultimately have "exponent x = int n" by (rule exponent_up)
    then show ?thesis using True by (simp add: n_def e_def)
  next
    case False
    define k where "k = nat (- e)"
    have e: "real_of_int e = - real k" using False by (simp add: k_def)
    have "2 powr (- real k) = 1 / (2::real) ^ k"
      by (simp only: powr_minus powr_realpow [OF zero_less_numeral] inverse_eq_divide)
    moreover have "2 powr (- real k + 1) = 2 / (2::real) ^ k"
      using powr_add [of "2::real" "- real k" 1]
      by (simp add: powr_minus powr_realpow inverse_eq_divide)
    ultimately have "1 / 2 ^ k \<le> \<bar>x\<bar>" "\<bar>x\<bar> < 2 / 2 ^ k"
      using b unfolding e by simp_all
    then have "1 \<le> \<bar>x\<bar> * 2 ^ k" "\<bar>x\<bar> * 2 ^ k < 2" by (simp_all add: field_simps)
    moreover have "k \<le> 1022" using lo by (simp add: k_def)
    ultimately have "exponent x = - int k" by (rule exponent_down)
    then show ?thesis using False by (simp add: k_def e_def)
  qed
qed

text \<open>Rounding moves a number by at most half the distance between doubles.\<close>

lemma fl_error: "\<bar>fl x - x\<bar> \<le> ulp x / 2"
proof (cases "x = 0")
  case True
  then show ?thesis using ulp_pos [of 0] by simp
next
  case False
  have "fl x - x = (real_of_int (rne (x / ulp x)) - x / ulp x) * ulp x"
    using False ulp_pos [of x] by (simp add: fl_def field_simps)
  then have "\<bar>fl x - x\<bar> = \<bar>real_of_int (rne (x / ulp x)) - x / ulp x\<bar> * ulp x"
    using ulp_pos [of x] by (simp add: abs_mult)
  also have "\<dots> \<le> 1/2 * ulp x"
    using rne_error [of "x / ulp x"] ulp_pos [of x] by (intro mult_right_mono) simp_all
  finally show ?thesis by simp
qed

text \<open>A multiple of \<open>ulp x\<close> is a double: rounding keeps it.\<close>

lemma fl_exact: "x = real_of_int m * ulp x \<Longrightarrow> fl x = x"
proof -
  assume x: "x = real_of_int m * ulp x"
  have "x / ulp x = real_of_int m"
    using ulp_pos [of x] by (subst x) simp
  then show "fl x = x" using x by (simp add: fl_def)
qed

text \<open>
  How to round a given number: for \<open>2 ^ e \<le> \<bar>x\<bar> < 2 ^ (e + 1)\<close> with \<open>e \<le> 52\<close>, and for
  \<open>2 ^ - k \<le> \<bar>x\<bar> < 2 ^ (1 - k)\<close>.
\<close>

lemma fl_up:
  assumes "(2::real) ^ e \<le> \<bar>x\<bar>" "\<bar>x\<bar> < 2 * 2 ^ e" "e \<le> 52"
  shows "fl x = real_of_int (rne (x * 2 ^ (52 - e))) / 2 ^ (52 - e)"
proof -
  have "exponent x = int e"
    using assms by (intro exponent_up) simp_all
  then have u: "ulp x = 1 / 2 ^ (52 - e)"
  proof (cases "e = 52")
    case True
    with \<open>exponent x = int e\<close> show ?thesis by (simp add: ulp_def)
  next
    case False
    with assms(3) have "e < 52" by simp
    moreover have "nat (52 - int e) = 52 - e" by simp
    ultimately show ?thesis using \<open>exponent x = int e\<close> by (simp add: ulp_def)
  qed
  have "(0::real) < 2 ^ e" by simp
  with assms(1) have "x \<noteq> 0" by linarith
  then show ?thesis by (simp add: fl_def u)
qed

lemma fl_down:
  assumes "1 \<le> \<bar>x\<bar> * 2 ^ k" "\<bar>x\<bar> * 2 ^ k < 2" "k \<le> 1022"
  shows "fl x = real_of_int (rne (x * 2 ^ (52 + k))) / 2 ^ (52 + k)"
proof -
  have "exponent x = - int k" using assms by (rule exponent_down)
  moreover have "nat (52 + int k) = 52 + k" by simp
  ultimately have u: "ulp x = 1 / 2 ^ (52 + k)" by (simp add: ulp_def)
  have "x \<noteq> 0" using assms(1) by auto
  then show ?thesis by (simp add: fl_def u)
qed

text \<open>Integers below \<open>2 ^ 53\<close> are doubles.\<close>

lemma fl_of_int:
  assumes "\<bar>n\<bar> < 2 ^ 53"
  shows "fl (real_of_int n) = real_of_int n"
proof (cases "n = 0")
  case True
  then show ?thesis by simp
next
  case False
  define x where "x = real_of_int n"
  define m where "m = nat \<bar>n\<bar>"
  have m1: "1 \<le> m" using False by (simp add: m_def)
  have xm: "\<bar>x\<bar> = real m" by (simp add: x_def m_def)
  from ex_power_ivl1 [OF order_refl m1] obtain e where e: "2 ^ e \<le> m" "m < 2 ^ (e + 1)"
    by blast
  have "m < 2 ^ 53" using assms by (simp add: m_def nat_less_iff)
  with e(1) have "(2::nat) ^ e < 2 ^ 53" by simp
  then have "e < 53" by (rule power_less_imp_less_exp [rotated]) simp
  then have e52: "e \<le> 52" by simp
  have "real (2 ^ e) \<le> real m" "real m < real (2 ^ (e + 1))"
    using e by (simp_all only: of_nat_le_iff of_nat_less_iff)
  then have "2 ^ e \<le> \<bar>x\<bar>" "\<bar>x\<bar> < 2 * 2 ^ e" by (simp_all add: xm)
  then have a: "fl x = real_of_int (rne (x * 2 ^ (52 - e))) / 2 ^ (52 - e)"
    using e52 by (rule fl_up)
  have b: "x * 2 ^ (52 - e) = real_of_int (n * 2 ^ (52 - e))" by (simp add: x_def)
  have "fl x = real_of_int (n * 2 ^ (52 - e)) / 2 ^ (52 - e)"
    unfolding a b rne_of_int ..
  then show ?thesis by (simp add: x_def)
qed

lemma fl_numeral [simp]: "numeral w < (2::int) ^ 53 \<Longrightarrow> fl (numeral w) = numeral w"
  using fl_of_int [of "numeral w"] by simp

lemma fl_one [simp]: "fl 1 = 1"
  using fl_of_int [of 1] by simp

lemma fl_half [simp]: "fl (1/2) = 1/2"
  by (subst fl_down [where k = 1]) (simp_all add: rne_def)

lemma ulp_small:
  assumes "\<bar>x\<bar> < 2 ^ 21"
  shows "ulp x \<le> 1 / 2 ^ 31"
proof -
  have "exponent x \<le> 20"
  proof (cases "1 \<le> \<bar>x\<bar>")
    case True
    have "halvings 1023 \<bar>x\<bar> \<le> 20" using assms by (intro halvings_le) simp
    with True show ?thesis by (simp add: exponent_def)
  next
    case False
    then show ?thesis by (simp add: exponent_def)
  qed
  then have "real_of_int (exponent x) - 52 \<le> - 31" by simp
  then have "ulp x \<le> 2 powr (- 31)" unfolding ulp_powr by (intro powr_mono) simp_all
  also have "2 powr (- 31) = (1 / 2 ^ 31 :: real)"
    by (simp add: powr_minus inverse_eq_divide)
  finally show ?thesis .
qed

text \<open>
  The stride: for a length below \<open>2 ^ 32\<close>, which every array length is, the ceiling of the
  rounded quotient \<^verbatim>\<open>len / 4000\<close> is the ceiling of the exact quotient.
\<close>

lemma stride_rounded:
  assumes "len < 2 ^ 32"
  shows "\<lceil>fl (real len / 4000)\<rceil> = \<lceil>real len / 4000\<rceil>"
proof -
  define q where "q = len div 4000"
  define r where "r = len mod 4000"
  define x where "x = real len / 4000"
  have len: "len = q * 4000 + r" by (simp add: q_def r_def)
  have x: "x = real q + real r / 4000" by (simp add: x_def len)
  show ?thesis
  proof (cases "r = 0")
    case True
    then have "x = real_of_int (int q)" by (simp add: x)
    moreover have "\<bar>int q\<bar> < 2 ^ 53"
    proof -
      have "q \<le> len" by (simp add: q_def)
      then have "q < 2 ^ 32" using assms by simp
      also have "(2::nat) ^ 32 < 2 ^ 53" by simp
      finally have "int q < int (2 ^ 53)" by (simp only: of_nat_less_iff)
      then show ?thesis by simp
    qed
    ultimately have "fl x = x" using fl_of_int [of "int q"] by simp
    then show ?thesis unfolding x_def by (simp only:)
  next
    case False
    then have r: "1 \<le> r" "r \<le> 3999" by (simp_all add: r_def Suc_le_eq less_Suc_eq_le [symmetric])
    have "real len < 2 ^ 32"
    proof -
      have "real len < real (2 ^ 32)" using assms by (simp only: of_nat_less_iff)
      then show ?thesis by simp
    qed
    then have "\<bar>x\<bar> < 2 ^ 21" by (simp add: x_def)
    then have "ulp x \<le> 1 / 2 ^ 31" by (rule ulp_small)
    with fl_error [of x] have e: "\<bar>fl x - x\<bar> \<le> 1 / 4294967296" by simp
    have lo: "real q + 1 / 4000 \<le> x" using r by (simp add: x)
    have hi: "x \<le> real q + 3999 / 4000" using r by (simp add: x)
    have "real q < fl x" using e lo by linarith
    moreover have "fl x \<le> real q + 1" using e hi by linarith
    ultimately have "\<lceil>fl x\<rceil> = int q + 1" by (intro ceiling_unique) simp_all
    moreover have "\<lceil>x\<rceil> = int q + 1" using lo hi by (intro ceiling_unique) simp_all
    ultimately show ?thesis by (simp add: x_def)
  qed
qed

text \<open>A clock value of 950 ms after the start shows as 0.9.\<close>

lemma toFixed1_950: "toFixed1 (fl (950 / 1000)) = fl (9 / 10)"
proof -
  have a: "fl (950 / 1000) = 4278419646001971 / 2 ^ 52"
    by (subst fl_down [where k = 1]) (simp_all add: rne_def)
  show ?thesis unfolding toFixed1_def Math_round_def a by simp
qed

section \<open>Loop rules of the physics engine\<close>

text \<open>
  Total correctness of the two loops: with a positive stride each loop returns, and an
  invariant that every pass keeps holds of what it returns.
\<close>

lemma innerLoop_rule:
  assumes "0 < stride"
    and "I j bodies calcs"
    and "\<And>j b c. I j b c \<Longrightarrow> j < len \<Longrightarrow> I (j + stride) (pairStep i j b) (c + 1)"
  shows "\<exists>j' b' c'. innerLoop stride len i j bodies calcs = Some (b', c') \<and> I j' b' c' \<and> len \<le> j'"
  using assms(2)
proof (induction "len - j" arbitrary: j bodies calcs rule: less_induct)
  case less
  show ?case
  proof (cases "j < len")
    case True
    have "len - (j + stride) < len - j" using True assms(1) by arith
    from less.hyps [OF this assms(3) [OF less.prems True]] True
    show ?thesis by (subst innerLoop.simps) simp
  next
    case False
    with less.prems show ?thesis
      by (subst innerLoop.simps) (auto intro: exI [of _ j])
  qed
qed

lemma outerLoop_rule:
  assumes "0 < stride"
    and "I i bodies calcs"
    and "\<And>i b c b1 c1. I i b c \<Longrightarrow> i < len \<Longrightarrow>
           innerLoop stride len i (i + 1) (b[i := centerAttraction (b ! i)]) c = Some (b1, c1) \<Longrightarrow>
           I (i + 1) (b1[i := softBounds (integrate dt (b1 ! i))]) c1"
  shows "\<exists>i' b' c'. outerLoop dt stride len i bodies calcs = Some (b', c') \<and> I i' b' c' \<and> len \<le> i'
           \<and> (i \<le> len \<longrightarrow> i' = len)"
  using assms(2)
proof (induction "len - i" arbitrary: i bodies calcs rule: less_induct)
  case less
  show ?case
  proof (cases "i < len")
    case True
    obtain b1 c1 where inner:
      "innerLoop stride len i (i + 1) (bodies[i := centerAttraction (bodies ! i)]) calcs = Some (b1, c1)"
      using innerLoop_rule [OF assms(1), of "\<lambda>_ _ _. True"] by blast
    have "len - (i + 1) < len - i" using True by arith
    from less.hyps [OF this assms(3) [OF less.prems True inner]] True inner
    show ?thesis by (subst outerLoop.simps) auto
  next
    case False
    with less.prems show ?thesis
      by (subst outerLoop.simps) (auto intro: exI [of _ i])
  qed
qed

text \<open>With a stride of zero the inner loop does not return.\<close>

lemma innerLoop_zero_aux:
  "innerLoop stride len i j bodies calcs = Some r \<Longrightarrow> stride = 0 \<Longrightarrow> j < len \<Longrightarrow> False"
proof (induction stride len i j bodies calcs r rule: innerLoop.raw_induct [rotated 1, consumes 1])
  case (1 f stride len i j bodies calcs r)
  from 1(2,3,4) have "f stride len i j (pairStep i j bodies) (calcs + 1) = Some r"
    by simp
  from 1(1) [OF this 1(3,4)] show ?case .
qed

lemma innerLoop_zero_stride:
  "j < len \<Longrightarrow> innerLoop 0 len i j bodies calcs = None"
  using innerLoop_zero_aux [of 0 len i j bodies calcs]
  by (cases "innerLoop 0 len i j bodies calcs") auto

lemma stride_of_pos: "0 < stride_of len"
  by (simp add: stride_of_def)

lemma stride_of_div: "stride_of len = (if len > 8000 then (len + 3999) div 4000 else 1)"
proof -
  have "\<lceil>real len / 4000\<rceil> = int ((len + 3999) div 4000)"
    by linarith
  then show ?thesis by (simp add: stride_of_def)
qed

lemma stride_of_large: "8000 < n \<Longrightarrow> 3 \<le> stride_of n"
  by (simp add: stride_of_div)

section \<open>Counting the pairs\<close>

lemma lt_ceil: "0 < s \<Longrightarrow> k * s < d \<longleftrightarrow> k < (d + s - 1) div (s::nat)"
proof -
  assume s: "0 < s"
  have "k < (d + s - 1) div s \<longleftrightarrow> Suc k \<le> (d + s - 1) div s" by (simp add: Suc_le_eq)
  also have "\<dots> \<longleftrightarrow> Suc k * s \<le> d + s - 1"
    using s by (rule less_eq_div_iff_mult_less_eq)
  also have "\<dots> \<longleftrightarrow> k * s + s \<le> d + s - 1" by (simp add: add.commute)
  also have "\<dots> \<longleftrightarrow> k * s < d" using s by arith
  finally show ?thesis by simp
qed

lemma card_progression:
  assumes "0 < s"
  shows "card {j. i < j \<and> j < n \<and> (\<exists>k. j = i + 1 + k * s)} = (n - (i + 1) + s - 1) div s"
proof -
  let ?m = "(n - (i + 1) + s - 1) div s"
  let ?f = "\<lambda>k. i + 1 + k * s"
  have m: "?f k < n \<longleftrightarrow> k < ?m" for k
  proof -
    have "i + 1 + k * s < n \<longleftrightarrow> k * s < n - (i + 1)" by arith
    then show ?thesis using lt_ceil [OF assms, of k "n - (i + 1)"] by simp
  qed
  have "{j. i < j \<and> j < n \<and> (\<exists>k. j = ?f k)} = ?f ` {..<?m}"
  proof (intro equalityI subsetI)
    fix j assume "j \<in> {j. i < j \<and> j < n \<and> (\<exists>k. j = ?f k)}"
    then obtain k where "j = ?f k" "j < n" by blast
    then have "k < ?m" using m [of k] by simp
    with \<open>j = ?f k\<close> show "j \<in> ?f ` {..<?m}" by blast
  next
    fix j assume "j \<in> ?f ` {..<?m}"
    then obtain k where k: "j = ?f k" "k < ?m" by blast
    then have "j < n" using m [of k] by simp
    moreover have "i < j" using k by simp
    ultimately show "j \<in> {j. i < j \<and> j < n \<and> (\<exists>k. j = ?f k)}" using k by blast
  qed
  moreover have "inj_on ?f {..<?m}"
    using assms by (simp add: inj_on_def)
  ultimately have "card {j. i < j \<and> j < n \<and> (\<exists>k. j = ?f k)} = card {..<?m}"
    by (simp only: card_image)
  then show ?thesis by simp
qed

lemma pairsVisited_closed:
  "0 < s \<Longrightarrow> pairsVisited n s = (\<Sum>i<n. (n - (i + 1) + s - 1) div s)"
  by (simp only: pairsVisited_def card_progression)

lemma inner_count_step:
  assumes "0 < s" "j < len"
  shows "Suc ((len - (j + s) + s - 1) div s) = (len - j + s - 1) div (s::nat)"
proof -
  define d where "d = len - j - 1"
  have r: "len - j + s - 1 = d + s" using assms by (simp add: d_def)
  have l: "(len - (j + s) + s - 1) div s = d div s"
  proof (cases "s \<le> len - j")
    case True
    then have "len - (j + s) + s - 1 = d" using assms by (simp add: d_def)
    then show ?thesis by simp
  next
    case False
    then have "len - (j + s) + s - 1 = s - 1" "d < s" using assms by (simp_all add: d_def)
    then show ?thesis using assms by simp
  qed
  have "(d + s) div s = Suc (d div s)" using assms by simp
  then show ?thesis unfolding l r by simp
qed

lemma innerLoop_calcs:
  assumes "0 < stride"
  shows "\<exists>b'. innerLoop stride len i j bodies calcs
           = Some (b', calcs + (len - j + stride - 1) div stride)"
proof -
  have "\<exists>j' b' c'. innerLoop stride len i j bodies calcs = Some (b', c') \<and>
          c' + (len - j' + stride - 1) div stride = calcs + (len - j + stride - 1) div stride
          \<and> len \<le> j'"
  proof (rule innerLoop_rule [OF assms, where I = "\<lambda>j' b c. c + (len - j' + stride - 1) div stride = calcs + (len - j + stride - 1) div stride"])
    show "calcs + (len - j + stride - 1) div stride = calcs + (len - j + stride - 1) div stride" ..
  next
    fix j' b c
    assume "c + (len - j' + stride - 1) div stride = calcs + (len - j + stride - 1) div stride"
      and "j' < len"
    then show "c + 1 + (len - (j' + stride) + stride - 1) div stride
                 = calcs + (len - j + stride - 1) div stride"
      using inner_count_step [OF assms, of j' len] by simp
  qed
  then obtain j' b' c' where *: "innerLoop stride len i j bodies calcs = Some (b', c')"
    "c' + (len - j' + stride - 1) div stride = calcs + (len - j + stride - 1) div stride"
    "len \<le> j'" by blast
  from \<open>len \<le> j'\<close> assms have "(len - j' + stride - 1) div stride = 0" by simp
  with * show ?thesis by simp
qed

lemma outerLoop_calcs:
  assumes "0 < stride"
  shows "\<exists>b'. outerLoop dt stride len 0 bodies 0
           = Some (b', \<Sum>i<len. (len - (i + 1) + stride - 1) div stride)"
proof -
  let ?t = "\<lambda>i. (len - (i + 1) + stride - 1) div stride"
  have "\<exists>i' b' c'. outerLoop dt stride len 0 bodies 0 = Some (b', c') \<and> c' = (\<Sum>i<i'. ?t i)
          \<and> len \<le> i' \<and> (0 \<le> len \<longrightarrow> i' = len)"
  proof (rule outerLoop_rule [OF assms, where I = "\<lambda>i' b c. c = (\<Sum>i<i'. ?t i)"])
    show "0 = (\<Sum>i<0. ?t i)" by simp
  next
    fix i b c b1 c1
    assume c: "c = (\<Sum>i<i. ?t i)"
      and "innerLoop stride len i (i + 1) (b[i := centerAttraction (b ! i)]) c = Some (b1, c1)"
    with innerLoop_calcs [OF assms, of len i "i + 1" "b[i := centerAttraction (b ! i)]" c]
    have "c1 = c + ?t i" by auto
    with c show "c1 = (\<Sum>i<i + 1. ?t i)" by simp
  qed
  then show ?thesis by auto
qed

lemma updatePhysics_calcs:
  "\<exists>bodies'. updatePhysics dt bodies
      = Some (bodies', pairsVisited (length bodies) (stride_of (length bodies)))"
  using outerLoop_calcs [OF stride_of_pos, of dt "length bodies" "length bodies" bodies]
  by (simp add: updatePhysics_def Let_def pairsVisited_closed [OF stride_of_pos])

lemma sum_below: "(\<Sum>i<n. n - (i + 1)) = n * (n - 1) div (2::nat)"
proof -
  have "(\<Sum>i<n. n - Suc i) = (\<Sum>i<n. i)" by (rule sum.nat_diff_reindex)
  also have "\<dots> = (\<Sum>i = 0..<n. i)" by (simp only: lessThan_atLeast0)
  also have "\<dots> = n * (n - 1) div 2" by (simp add: Sum_Ico_nat)
  finally show ?thesis by simp
qed

lemma ceil_le:
  assumes "0 < s"
  shows "(d + s - 1) div s \<le> (d::nat)"
proof -
  have "\<not> d * s < d" using assms by simp
  then have "\<not> d < (d + s - 1) div s" using lt_ceil [OF assms, of d d] by simp
  then show ?thesis by simp
qed

lemma ceil_two: "2 \<le> s \<Longrightarrow> (2 + s - 1) div s = (1::nat)"
proof -
  assume s: "2 \<le> s"
  then have "2 + s - 1 = 1 + s" by simp
  moreover have "(1 + s) div s = 1 div s + 1" using s by (intro div_add_self2) simp
  moreover have "1 div s = 0" using s by simp
  ultimately show ?thesis by simp
qed

lemma sparse_less:
  assumes "2 \<le> s" "3 \<le> n"
  shows "(\<Sum>i<n. (n - (i + 1) + s - 1) div s) < n * (n - 1) div (2::nat)"
proof -
  have s: "0 < s" using assms by simp
  have "(\<Sum>i<n. (n - (i + 1) + s - 1) div s) < (\<Sum>i<n. n - (i + 1))"
  proof (rule sum_strict_mono_ex1)
    show "finite {..<n}" by simp
    show "\<forall>i\<in>{..<n}. (n - (i + 1) + s - 1) div s \<le> n - (i + 1)"
      using ceil_le [OF s] by blast
    have "n - 3 \<in> {..<n}" using assms by simp
    moreover have "n - (n - 3 + 1) = 2" using assms by simp
    then have "(n - (n - 3 + 1) + s - 1) div s < n - (n - 3 + 1)"
      using ceil_two [OF assms(1)] by simp
    ultimately show "\<exists>a\<in>{..<n}. (n - (a + 1) + s - 1) div s < n - (a + 1)" by blast
  qed
  then show ?thesis by (simp only: sum_below)
qed

lemma pairsVisited_dense: "pairsVisited n 1 = n * (n - 1) div 2"
  using sum_below [of n] by (simp add: pairsVisited_closed)

lemma pairsVisited_sparse: "2 \<le> s \<Longrightarrow> 3 \<le> n \<Longrightarrow> pairsVisited n s < n * (n - 1) div 2"
  using sparse_less [of s n] by (simp add: pairsVisited_closed)

section \<open>Spawning and the frame loop\<close>

lemma addParticles_eq:
  "addParticles random count s =
     s\<lparr>bodiesRef := bodiesRef s @ map (\<lambda>k. spawn random (randomCalls s + 6 * k)) [0..<count],
       randomCalls := randomCalls s + 6 * count\<rparr>"
proof (induction count arbitrary: s)
  case 0
  show ?case by simp
next
  case (Suc count)
  show ?case
    by (simp only: addParticles.simps Suc.IH map_upt_Suc) (simp add: add.assoc)
qed

lemma addParticles_length:
  "length (bodiesRef (addParticles random count s)) = length (bodiesRef s) + count"
  by (simp add: addParticles_eq)

lemma rampLogic_keeps:
  "endTime (rampLogic T random now s) = endTime s"
  "startTime (rampLogic T random now s) = startTime s"
  "totalCalcsRef (rampLogic T random now s) = totalCalcsRef s"
  "isRunning (rampLogic T random now s) = isRunning s"
  "showResults (rampLogic T random now s) = showResults s"
  by (simp_all add: rampLogic_def Let_def addParticles_eq)

lemma rampLogic_length:
  "length (bodiesRef (rampLogic T random now s)) =
     length (bodiesRef s) +
       (if now > fl (lastMetricTime s + 500)
        then rampAmount (fl (fl (real (frameCount s) * 1000) / fl (now - lastMetricTime s)))
        else 0)"
  by (simp add: rampLogic_def Let_def addParticles_length)

lemma loop_physics:
  assumes "ctxReady canvasRefs" and "now < endTime s"
  shows "\<exists>bodies'.
     updatePhysics 0.5 (bodiesRef (rampLogic T random now s)) =
       Some (bodies', pairsVisited (length (bodiesRef (rampLogic T random now s)))
                        (stride_of (length (bodiesRef (rampLogic T random now s))))) \<and>
     loop T random canvasRefs now s =
       Some ((rampLogic T random now s)
              \<lparr>frameCount := frameCount (rampLogic T random now s) + 1,
               bodiesRef := bodies',
               totalCalcsRef := totalCalcsRef s +
                 pairsVisited (length (bodiesRef (rampLogic T random now s)))
                   (stride_of (length (bodiesRef (rampLogic T random now s)))),
               framePending := True\<rparr>)"
proof -
  let ?s1 = "rampLogic T random now s"
  obtain bodies' where "updatePhysics 0.5 (bodiesRef ?s1) =
      Some (bodies', pairsVisited (length (bodiesRef ?s1)) (stride_of (length (bodiesRef ?s1))))"
    using updatePhysics_calcs by blast
  then show ?thesis using assms
    by (simp add: loop_def Let_def rampLogic_keeps)
qed

lemma loop_finish:
  assumes "ctxReady canvasRefs" and "endTime s \<le> now"
  shows "loop T random canvasRefs now s = Some (finish (rampLogic T random now s))"
  using assms by (simp add: loop_def Let_def rampLogic_keeps)

lemma loop_waiting:
  "\<not> ctxReady canvasRefs \<Longrightarrow> loop T random canvasRefs now s = Some (s\<lparr>framePending := True\<rparr>)"
  by (simp add: loop_def)

lemma ctxReady_readyCanvas: "ctxReady readyCanvas"
  by (simp add: ctxReady_def readyCanvas_def)

section \<open>Finishing a run\<close>

text \<open>
  Where none of its operations rounds, the mean that \<open>finish\<close> computes is the arithmetic
  mean.
\<close>

lemma foldl_fps_exact:
  assumes "\<forall>k\<le>length data. fl (a + sum_list (map fps (take k data)))
             = a + sum_list (map fps (take k data))"
  shows "foldl (\<lambda>acc curr. fl (acc + fps curr)) a data = a + sum_list (map fps data)"
  using assms
proof (induction data arbitrary: a)
  case Nil
  show ?case by simp
next
  case (Cons d ds)
  from Cons.prems [rule_format, of 1] have 1: "fl (a + fps d) = a + fps d" by simp
  have "\<forall>k\<le>length ds. fl (a + fps d + sum_list (map fps (take k ds)))
          = a + fps d + sum_list (map fps (take k ds))"
  proof (intro allI impI)
    fix k assume "k \<le> length ds"
    with Cons.prems [rule_format, of "Suc k"]
    show "fl (a + fps d + sum_list (map fps (take k ds)))
          = a + fps d + sum_list (map fps (take k ds))"
      by (simp add: add.assoc)
  qed
  from Cons.IH [OF this] show ?case by (simp add: 1 add.assoc)
qed

lemma average_exact:
  assumes "\<forall>k\<le>length data. fl (sum_list (map fps (take k data)))
             = sum_list (map fps (take k data))"
    and "fl (meanFps data) = meanFps data"
  shows "average data = meanFps data"
proof (cases "data = []")
  case True
  then show ?thesis by (simp add: average_def meanFps_def)
next
  case False
  have "foldl (\<lambda>acc curr. fl (acc + fps curr)) 0 data = 0 + sum_list (map fps data)"
    by (rule foldl_fps_exact) (use assms(1) in simp)
  then have "average data = fl (meanFps data)"
    using False by (simp add: average_def meanFps_def)
  with assms(2) show ?thesis by simp
qed

lemma average_single: "fl v = v \<Longrightarrow> average [\<lparr>time = t, fps = v, particles = p\<rparr>] = v"
  by (simp add: average_def)

lemma finish_fields:
  "finalScore (finish s) =
     \<lfloor>fl (fl (real (totalCalcsRef s) / 100000) * fl (average (historyRef s) / 60))\<rfloor>"
  "avgFps (finish s) = Math_round (average (historyRef s))"
  "peakParticles (finish s) = length (bodiesRef s)"
  "history (finish s) = historyRef s"
  "historyRef (finish s) = historyRef s"
  "bodiesRef (finish s) = bodiesRef s"
  "totalCalcsRef (finish s) = totalCalcsRef s"
  "isRunning (finish s) = False"
  "showResults (finish s) = True"
  "framePending (finish s) = False"
  by (simp_all add: finish_def Let_def)



lemma rampLogic_lastFrame: "rampLogic 1000 (\<lambda>k. 0) 1000 lastFrame = lastFrame"
  by (simp add: rampLogic_def lastFrame_def initialApp_def Let_def)

lemma pairsVisited_two: "pairsVisited 2 (stride_of 2) = 1"
proof -
  have "stride_of 2 = 1" by (simp add: stride_of_def)
  then have "pairsVisited 2 (stride_of 2) = 2 * (2 - 1) div 2"
    by (simp only: pairsVisited_dense)
  then show ?thesis by simp
qed

lemma rampLogic_idle:
  "now \<le> fl (lastMetricTime s + 500) \<Longrightarrow> rampLogic T random now s = s"
  by (simp add: rampLogic_def Let_def)

lemma rampLogic_history:
  "fl (lastMetricTime s + 500) < now \<Longrightarrow>
   historyRef (rampLogic T random now s) =
     historyRef s @ [\<lparr>time = fl (fl (now - startTime s) / 1000),
                      fps = fl (fl (real (frameCount s) * 1000) / fl (now - lastMetricTime s)),
                      particles = length (bodiesRef s)\<rparr>]"
  by (simp add: rampLogic_def Let_def addParticles_eq)

section \<open>What the integrator changes\<close>

lemma pairStep_length: "length (pairStep i j bodies) = length bodies"
  by (simp add: pairStep_def interact_def Let_def)

lemma pairStep_nth:
  assumes "i < j" "j < length bodies"
  shows "pairStep i j bodies ! k =
     (if k = j then pullB (pairForce (bodies ! i) (bodies ! j)) (bodies ! j)
      else if k = i then pushA (pairForce (bodies ! i) (bodies ! j)) (bodies ! i)
      else bodies ! k)"
  using assms by (simp add: pairStep_def interact_def Let_def nth_list_update)

lemma pairStep_keeps:
  assumes "i < j" "j < length bodies"
  shows "\<exists>w. pairStep i j bodies ! k = (bodies ! k)\<lparr>vel := w\<rparr>"
proof -
  have "pairStep i j bodies ! k = (bodies ! k)\<lparr>vel := vel (pairStep i j bodies ! k)\<rparr>"
    unfolding pairStep_nth [OF assms] by (simp add: pushA_def pullB_def)
  then show ?thesis ..
qed

lemma innerLoop_frame:
  assumes "0 < stride" and "i < j" and "len = length bs"
  shows "\<exists>b' c'. innerLoop stride len i j bs c = Some (b', c') \<and> length b' = length bs \<and>
           (\<forall>k<length bs. \<exists>w. b' ! k = (bs ! k)\<lparr>vel := w\<rparr>) \<and> (\<forall>k<i. b' ! k = bs ! k)"
proof -
  let ?I = "\<lambda>j' b (c'::nat). i < j' \<and> length b = length bs \<and>
              (\<forall>k<length bs. \<exists>w. b ! k = (bs ! k)\<lparr>vel := w\<rparr>) \<and> (\<forall>k<i. b ! k = bs ! k)"
  have "\<exists>j' b' c'. innerLoop stride len i j bs c = Some (b', c') \<and> ?I j' b' c' \<and> len \<le> j'"
  proof (rule innerLoop_rule [OF assms(1), where I = ?I])
    have "bs ! k = (bs ! k)\<lparr>vel := vel (bs ! k)\<rparr>" for k by simp
    then have "\<forall>k<length bs. \<exists>w. bs ! k = (bs ! k)\<lparr>vel := w\<rparr>" by blast
    with assms(2) show "?I j bs c" by simp
  next
    fix j' b c'
    assume I: "?I j' b c'" and j': "j' < len"
    then have ij: "i < j'" and jl: "j' < length b" using assms(3) by simp_all
    have "\<exists>w. pairStep i j' b ! k = (bs ! k)\<lparr>vel := w\<rparr>" if k: "k < length bs" for k
    proof -
      from I k obtain w where w: "b ! k = (bs ! k)\<lparr>vel := w\<rparr>" by blast
      from pairStep_keeps [OF ij jl, of k] obtain w'
        where "pairStep i j' b ! k = (b ! k)\<lparr>vel := w'\<rparr>" ..
      then have "pairStep i j' b ! k = (bs ! k)\<lparr>vel := w'\<rparr>" by (simp add: w)
      then show ?thesis ..
    qed
    moreover have "pairStep i j' b ! k = bs ! k" if "k < i" for k
    proof -
      from that ij have "k \<noteq> j'" "k \<noteq> i" by simp_all
      then have "pairStep i j' b ! k = b ! k" by (simp add: pairStep_nth [OF ij jl])
      with I that show ?thesis by simp
    qed
    ultimately show "?I (j' + stride) (pairStep i j' b) (c' + 1)"
      using I by (simp add: pairStep_length)
  qed
  then show ?thesis by blast
qed


lemma outerLoop_frame:
  assumes "0 < stride" and "len = length b0"
  shows "\<exists>b' c'. outerLoop dt stride len 0 b0 0 = Some (b', c') \<and> length b' = length b0 \<and>
           (\<forall>k<length b0. \<exists>w. b' ! k = softBounds (integrate dt ((b0 ! k)\<lparr>vel := w\<rparr>)))"
proof -
  let ?n = "length b0"
  let ?I = "\<lambda>i b (c::nat). length b = ?n \<and>
      (\<forall>k<?n. i \<le> k \<longrightarrow> (\<exists>w. b ! k = (b0 ! k)\<lparr>vel := w\<rparr>)) \<and>
      (\<forall>k<?n. k < i \<longrightarrow> (\<exists>w. b ! k = softBounds (integrate dt ((b0 ! k)\<lparr>vel := w\<rparr>))))"
  have "\<exists>i' b' c'. outerLoop dt stride len 0 b0 0 = Some (b', c') \<and> ?I i' b' c' \<and> len \<le> i'
          \<and> (0 \<le> len \<longrightarrow> i' = len)"
  proof (rule outerLoop_rule [OF assms(1), where I = ?I])
    have "b0 ! k = (b0 ! k)\<lparr>vel := vel (b0 ! k)\<rparr>" for k by simp
    then have "\<forall>k<?n. \<exists>w. b0 ! k = (b0 ! k)\<lparr>vel := w\<rparr>" by blast
    then show "?I 0 b0 0" by simp
  next
    fix i b c b1 c1
    assume I: "?I i b c" and i: "i < len"
      and inner: "innerLoop stride len i (i + 1) (b[i := centerAttraction (b ! i)]) c = Some (b1, c1)"
    let ?bs = "b[i := centerAttraction (b ! i)]"
    let ?b2 = "b1[i := softBounds (integrate dt (b1 ! i))]"
    from I have lb: "length b = ?n" by simp
    have ls: "len = length ?bs" using assms(2) lb by simp
    from innerLoop_frame [OF assms(1) _ ls, of i "i + 1" c] inner
    have l1: "length b1 = length ?bs"
      and v1: "\<forall>k<length ?bs. \<exists>w. b1 ! k = (?bs ! k)\<lparr>vel := w\<rparr>"
      and u1: "\<forall>k<i. b1 ! k = ?bs ! k"
      by auto
    have il: "i < length b" "i < length b1" using i assms(2) lb l1 by simp_all
    have later: "\<exists>w. ?b2 ! k = (b0 ! k)\<lparr>vel := w\<rparr>" if k: "k < ?n" "i + 1 \<le> k" for k
    proof -
      from k have ki: "k \<noteq> i" by simp
      from v1 k lb obtain w where "b1 ! k = (?bs ! k)\<lparr>vel := w\<rparr>" by auto
      then have 1: "b1 ! k = (b ! k)\<lparr>vel := w\<rparr>" using ki by simp
      from I k obtain w0 where "b ! k = (b0 ! k)\<lparr>vel := w0\<rparr>" by auto
      with 1 have "b1 ! k = (b0 ! k)\<lparr>vel := w\<rparr>" by simp
      then have "?b2 ! k = (b0 ! k)\<lparr>vel := w\<rparr>" using ki by simp
      then show ?thesis ..
    qed
    have earlier: "\<exists>w. ?b2 ! k = softBounds (integrate dt ((b0 ! k)\<lparr>vel := w\<rparr>))"
      if k: "k < ?n" "k < i + 1" for k
    proof (cases "k = i")
      case True
      from v1 il obtain w where "b1 ! i = (?bs ! i)\<lparr>vel := w\<rparr>" by auto
      then have 1: "b1 ! i = (b ! i)\<lparr>vel := w\<rparr>"
        using il by (simp add: centerAttraction_def)
      from I i assms(2) obtain w0 where "b ! i = (b0 ! i)\<lparr>vel := w0\<rparr>" by auto
      with 1 have "b1 ! i = (b0 ! i)\<lparr>vel := w\<rparr>" by simp
      then have "?b2 ! k = softBounds (integrate dt ((b0 ! k)\<lparr>vel := w\<rparr>))"
        using True il by simp
      then show ?thesis ..
    next
      case False
      with k have ki: "k < i" by simp
      with u1 have "b1 ! k = ?bs ! k" by simp
      then have "?b2 ! k = b ! k" using False by simp
      with I k ki show ?thesis by simp
    qed
    from later earlier l1 lb show "?I (i + 1) ?b2 c1" by simp
  qed
  then obtain i' b' c' where r: "outerLoop dt stride len 0 b0 0 = Some (b', c')"
    "?I i' b' c'" "i' = len" by auto
  then have "\<forall>k<?n. \<exists>w. b' ! k = softBounds (integrate dt ((b0 ! k)\<lparr>vel := w\<rparr>))"
    using assms(2) by simp
  with r show ?thesis by simp
qed

lemma updatePhysics_frame:
  "\<exists>bodies' calcs. updatePhysics dt bodies = Some (bodies', calcs) \<and>
      length bodies' = length bodies \<and>
      (\<forall>k<length bodies. \<exists>w. bodies' ! k = softBounds (integrate dt ((bodies ! k)\<lparr>vel := w\<rparr>)))"
proof -
  have "\<exists>b' c'. outerLoop dt (stride_of (length bodies)) (length bodies) 0 bodies 0 = Some (b', c') \<and>
      length b' = length bodies \<and>
      (\<forall>k<length bodies. \<exists>w. b' ! k = softBounds (integrate dt ((bodies ! k)\<lparr>vel := w\<rparr>)))"
    by (rule outerLoop_frame [OF stride_of_pos refl])
  then show ?thesis by (simp add: updatePhysics_def Let_def)
qed

lemma updatePhysics_length:
  "updatePhysics dt bodies = Some (bodies', calcs) \<Longrightarrow> length bodies' = length bodies"
  using updatePhysics_frame [of dt bodies] by auto


lemma updatePhysics_rest:
  "updatePhysics (1/2) [restBody, restBody] = Some ([restBody, restBody], 1)"
proof -
  have i: "interact restBody restBody = (restBody, restBody)"
    by (simp add: interact_def pairForce_def gravity_def stress_def pushA_def pullB_def
        restBody_def Let_def Math_sin_def Math_tan_def)
  have c: "centerAttraction restBody = restBody"
    by (simp add: centerAttraction_def restBody_def)
  have b: "softBounds (integrate (1/2) restBody) = restBody"
    by (simp add: softBounds_def integrate_def restBody_def bounce_def)
  have p: "pairStep 0 (Suc 0) [restBody, restBody] = [restBody, restBody]"
    by (simp add: pairStep_def i)
  have in2: "innerLoop s 2 i (Suc (Suc 0)) b k = Some (b, k)" for s i b k
    by (subst innerLoop.simps) simp
  have in1: "innerLoop (Suc 0) 2 0 (Suc 0) [restBody, restBody] 0 = Some ([restBody, restBody], Suc 0)"
    by (subst innerLoop.simps) (simp add: p in2)
  have o2: "outerLoop dt s 2 (Suc (Suc 0)) b k = Some (b, k)" for dt s b k
    by (subst outerLoop.simps) simp
  have o1: "outerLoop (1/2) s 2 (Suc 0) [restBody, restBody] k = Some ([restBody, restBody], k)"
    for s k
    by (subst outerLoop.simps) (simp add: c b in2 o2)
  have o0: "outerLoop (1/2) (Suc 0) 2 0 [restBody, restBody] 0 = Some ([restBody, restBody], Suc 0)"
    by (subst outerLoop.simps) (simp add: c b in1 o1)
  have l: "length [restBody, restBody] = 2" by simp
  show ?thesis unfolding updatePhysics_def Let_def l by (simp add: stride_of_def o0)
qed

section \<open>The velocities after one call\<close>

lemma visits_iff:
  "visits n s i j \<longleftrightarrow> i < j \<and> j < n \<and> (\<exists>k. j = i + 1 + k * s)"
proof -
  have "(j - (i + 1)) mod s = 0 \<longleftrightarrow> (\<exists>k. j = i + 1 + k * s)" if "i < j"
  proof
    assume "(j - (i + 1)) mod s = 0"
    then have "s dvd j - (i + 1)" by (simp add: dvd_eq_mod_eq_0)
    then obtain k where "j - (i + 1) = s * k" ..
    with that have "j = i + 1 + k * s" by (simp add: mult.commute)
    then show "\<exists>k. j = i + 1 + k * s" ..
  next
    assume "\<exists>k. j = i + 1 + k * s"
    then obtain k where "j = i + 1 + k * s" ..
    then show "(j - (i + 1)) mod s = 0" by simp
  qed
  then show ?thesis by (auto simp: visits_def)
qed

lemma progression_gap:
  assumes "0 < s" "(j - (i + 1)) mod s = 0" "i < j" "(k - (i + 1)) mod s = 0" "i < k"
    "k < j + s" "k \<noteq> j"
  shows "k < (j::nat)"
proof (rule ccontr)
  assume "\<not> k < j"
  with assms have jk: "j < k" by simp
  from assms have "s dvd j - (i + 1)" "s dvd k - (i + 1)" by (simp_all add: dvd_eq_mod_eq_0)
  then have "s dvd (k - (i + 1)) - (j - (i + 1))" by (rule dvd_diff_nat [rotated])
  moreover have "(k - (i + 1)) - (j - (i + 1)) = k - j" using assms jk by simp
  ultimately have "s dvd k - j" by simp
  moreover have "0 < k - j" using jk by simp
  ultimately have "s \<le> k - j" by (simp add: dvd_imp_le)
  with assms jk show False by simp
qed

lemma pairForce_vel: "pairForce (a\<lparr>vel := u\<rparr>) (b\<lparr>vel := v\<rparr>) = pairForce a b"
  by (simp add: pairForce_def gravity_def stress_def)

lemma component_pushA:
  "component c \<Longrightarrow> c (vel (pushA f a)) = fl (c (vel a) + fl (c f / mass a))"
  by (auto simp: component_def pushA_def)

lemma component_pullB:
  "component c \<Longrightarrow> c (vel (pullB f b)) = fl (c (vel b) - fl (c f / mass b))"
  by (auto simp: component_def pullB_def)

lemma component_centerAttraction:
  "component c \<Longrightarrow>
     c (vel (centerAttraction a)) = fl (c (vel a) - fl (c (pos a) * centerPull))"
  by (auto simp: component_def centerAttraction_def)

text \<open>The indices that a loop has reached so far, as a list in the order of the loop.\<close>

lemma filter_upt_beyond:
  assumes "\<And>k. P k \<Longrightarrow> k < n" and "n \<le> m"
  shows "filter P [0..<m] = filter P [0..<n]"
proof -
  have "[0..<m] = [0..<n] @ [n..<m]"
    using assms(2) upt_add_eq_append [of 0 n "m - n"] by simp
  moreover have "\<not> P k" if "n \<le> k" for k
    using assms(1) [of k] that by auto
  then have "filter P [n..<m] = []"
    by (simp add: filter_empty_conv)
  ultimately show ?thesis by simp
qed

lemma filter_upt_step:
  assumes "0 < s" and "P j" and "\<And>k. P k \<Longrightarrow> k < j + s \<Longrightarrow> k \<noteq> j \<Longrightarrow> k < j"
  shows "filter P [0..<j + s] = filter P [0..<j] @ [j::nat]"
proof -
  have "[0..<j + s] = [0..<j] @ [j..<j + s]"
    using upt_add_eq_append [of 0 j s] by simp
  moreover have "[j..<j + s] = j # [Suc j..<j + s]"
    using assms(1) by (simp add: upt_conv_Cons)
  moreover have "filter P [Suc j..<j + s] = []"
    using assms(3) by (fastforce simp: filter_empty_conv)
  ultimately show ?thesis using assms(2) by simp
qed

lemma innerLoop_vel:
  assumes s: "0 < s" and len: "len = length bs" and c: "component c"
  shows "\<exists>b' c'. innerLoop s len i (i + 1) bs c0 = Some (b', c') \<and>
     c (vel (b' ! i)) =
       foldl (\<lambda>v j. fl (v + fl (c (pairForce (bs ! i) (bs ! j)) / mass (bs ! i))))
         (c (vel (bs ! i))) (visited len s i) \<and>
     (\<forall>k<len. k \<noteq> i \<longrightarrow> c (vel (b' ! k)) =
        (if visits len s i k
         then fl (c (vel (bs ! k)) - fl (c (pairForce (bs ! i) (bs ! k)) / mass (bs ! k)))
         else c (vel (bs ! k))))"
proof -
  define g where "g v j = fl (v + fl (c (pairForce (bs ! i) (bs ! j)) / mass (bs ! i)))" for v j
  define h where "h k = fl (c (pairForce (bs ! i) (bs ! k)) / mass (bs ! k))" for k
  define V where "V j = filter (visits len s i) [0..<j]" for j
  define d where "d j k = (if visits len s i k \<and> k < j then fl (c (vel (bs ! k)) - h k)
                           else c (vel (bs ! k)))" for j k
  let ?J = "\<lambda>j b (c'::nat). i < j \<and> (j - (i + 1)) mod s = 0 \<and> length b = len \<and>
      (\<forall>k<len. \<exists>w. b ! k = (bs ! k)\<lparr>vel := w\<rparr>) \<and>
      c (vel (b ! i)) = foldl g (c (vel (bs ! i))) (V j) \<and>
      (\<forall>k<len. k \<noteq> i \<longrightarrow> c (vel (b ! k)) = d j k)"
  have "\<exists>j' b' c'. innerLoop s len i (i + 1) bs c0 = Some (b', c') \<and> ?J j' b' c' \<and> len \<le> j'"
  proof (rule innerLoop_rule [OF s, where I = ?J])
    have e: "V (i + 1) = []" by (auto simp: V_def visits_def filter_empty_conv)
    have z: "d (i + 1) k = c (vel (bs ! k))" for k by (auto simp: d_def visits_def)
    show "?J (i + 1) bs c0"
    proof (intro conjI)
      show "i < i + 1" by simp
      show "(i + 1 - (i + 1)) mod s = 0" by simp
      show "length bs = len" by (simp add: len)
      have "bs ! k = (bs ! k)\<lparr>vel := vel (bs ! k)\<rparr>" for k by simp
      then show "\<forall>k<len. \<exists>w. bs ! k = (bs ! k)\<lparr>vel := w\<rparr>" by blast
      show "c (vel (bs ! i)) = foldl g (c (vel (bs ! i))) (V (i + 1))"
        unfolding e by simp
      show "\<forall>k<len. k \<noteq> i \<longrightarrow> c (vel (bs ! k)) = d (i + 1) k"
        unfolding z by simp
    qed
  next
    fix j b c'
    assume J: "?J j b c'" and jl: "j < len"
    from J have ij: "i < j" by (elim conjE)
    from J have prog: "(j - (i + 1)) mod s = 0" by (elim conjE)
    from J have lb: "length b = len" by (elim conjE)
    from J have Jf: "\<forall>k<len. \<exists>w. b ! k = (bs ! k)\<lparr>vel := w\<rparr>" by (elim conjE)
    from J have JA: "c (vel (b ! i)) = foldl g (c (vel (bs ! i))) (V j)" by (elim conjE)
    from J have JB: "\<forall>k<len. k \<noteq> i \<longrightarrow> c (vel (b ! k)) = d j k" by (elim conjE)
    have jb: "j < length b" and il: "i < len" using jl lb ij by simp_all
    have vj: "visits len s i j" using ij jl prog by (simp add: visits_def)
    from Jf il obtain wi where wi: "b ! i = (bs ! i)\<lparr>vel := wi\<rparr>" by blast
    from Jf jl obtain wj where wj: "b ! j = (bs ! j)\<lparr>vel := wj\<rparr>" by blast
    have f: "pairForce (b ! i) (b ! j) = pairForce (bs ! i) (bs ! j)"
      unfolding wi wj by (rule pairForce_vel)
    have mi: "mass (b ! i) = mass (bs ! i)" and mj: "mass (b ! j) = mass (bs ! j)"
      by (simp_all add: wi wj)
    have ni: "pairStep i j b ! i = pushA (pairForce (bs ! i) (bs ! j)) (b ! i)"
      using ij by (simp add: pairStep_nth [OF ij jb] f)
    have nj: "pairStep i j b ! j = pullB (pairForce (bs ! i) (bs ! j)) (b ! j)"
      by (simp add: pairStep_nth [OF ij jb] f)
    have nk: "pairStep i j b ! k = b ! k" if "k \<noteq> i" "k \<noteq> j" for k
      using that by (simp add: pairStep_nth [OF ij jb])
    have gap: "k < j" if "visits len s i k" "k < j + s" "k \<noteq> j" for k
    proof -
      from that(1) have "(k - (i + 1)) mod s = 0" "i < k" by (simp_all add: visits_def)
      from progression_gap [OF s prog ij this that(2,3)] show ?thesis .
    qed
    have list: "V (j + s) = V j @ [j]"
      unfolding V_def using s vj gap by (rule filter_upt_step)
    have A: "c (vel (pairStep i j b ! i)) = foldl g (c (vel (bs ! i))) (V (j + s))"
    proof -
      have "c (vel (pairStep i j b ! i)) = g (c (vel (b ! i))) j"
        unfolding ni by (simp add: component_pushA [OF c] mi g_def)
      also have "\<dots> = g (foldl g (c (vel (bs ! i))) (V j)) j"
        unfolding JA ..
      also have "\<dots> = foldl g (c (vel (bs ! i))) (V (j + s))"
        unfolding list by simp
      finally show ?thesis .
    qed
    have B: "c (vel (pairStep i j b ! k)) = d (j + s) k"
      if k: "k < len" "k \<noteq> i" for k
    proof (cases "k = j")
      case True
      have "c (vel (pairStep i j b ! j)) = fl (c (vel (b ! j)) - h j)"
        unfolding nj by (simp add: component_pullB [OF c] mj h_def)
      moreover have "d j j = c (vel (bs ! j))" by (simp add: d_def)
      then have "c (vel (b ! j)) = c (vel (bs ! j))" using JB jl ij by simp
      moreover have "d (j + s) j = fl (c (vel (bs ! j)) - h j)" using vj s by (simp add: d_def)
      ultimately show ?thesis using True by simp
    next
      case False
      have "(visits len s i k \<and> k < j + s) = (visits len s i k \<and> k < j)"
        using gap [of k] False by auto
      then have "d (j + s) k = d j k" by (simp add: d_def)
      moreover have "pairStep i j b ! k = b ! k" using k False by (simp add: nk)
      ultimately show ?thesis using JB k by simp
    qed
    have F: "\<exists>w. pairStep i j b ! k = (bs ! k)\<lparr>vel := w\<rparr>" if k: "k < len" for k
    proof -
      from Jf k obtain w where w: "b ! k = (bs ! k)\<lparr>vel := w\<rparr>" by blast
      from pairStep_keeps [OF ij jb, of k] obtain w'
        where "pairStep i j b ! k = (b ! k)\<lparr>vel := w'\<rparr>" ..
      then have "pairStep i j b ! k = (bs ! k)\<lparr>vel := w'\<rparr>" by (simp add: w)
      then show ?thesis ..
    qed
    have P: "(j + s - (i + 1)) mod s = 0"
    proof -
      have "j + s - (i + 1) = (j - (i + 1)) + s" using ij by simp
      then show ?thesis using prog by simp
    qed
    show "?J (j + s) (pairStep i j b) (c' + 1)"
    proof (intro conjI)
      show "i < j + s" using ij by simp
      show "(j + s - (i + 1)) mod s = 0" by (rule P)
      show "length (pairStep i j b) = len" by (simp add: pairStep_length lb)
      show "\<forall>k<len. \<exists>w. pairStep i j b ! k = (bs ! k)\<lparr>vel := w\<rparr>" using F by blast
      show "c (vel (pairStep i j b ! i)) = foldl g (c (vel (bs ! i))) (V (j + s))" by (rule A)
      show "\<forall>k<len. k \<noteq> i \<longrightarrow> c (vel (pairStep i j b ! k)) = d (j + s) k"
        using B by blast
    qed
  qed
  then obtain j' b' c' where all: "innerLoop s len i (i + 1) bs c0 = Some (b', c') \<and>
      ?J j' b' c' \<and> len \<le> j'"
    by (elim exE) (rule that)
  from all have r: "innerLoop s len i (i + 1) bs c0 = Some (b', c')" by (elim conjE)
  from all have e: "len \<le> j'" by (elim conjE)
  from all have JA: "c (vel (b' ! i)) = foldl g (c (vel (bs ! i))) (V j')" by (elim conjE)
  from all have JB: "\<forall>k<len. k \<noteq> i \<longrightarrow> c (vel (b' ! k)) = d j' k"
    by (elim conjE)
  have V: "V j' = visited len s i"
    unfolding V_def visited_def
    by (rule filter_upt_beyond [OF _ e]) (simp add: visits_def)
  have D: "d j' k = (if visits len s i k then fl (c (vel (bs ! k)) - h k) else c (vel (bs ! k)))"
    for k
    using e by (auto simp: d_def visits_def)
  have 1: "c (vel (b' ! i)) =
       foldl (\<lambda>v j. fl (v + fl (c (pairForce (bs ! i) (bs ! j)) / mass (bs ! i))))
         (c (vel (bs ! i))) (visited len s i)"
    using JA unfolding V g_def .
  have 2: "\<forall>k<len. k \<noteq> i \<longrightarrow> c (vel (b' ! k)) =
        (if visits len s i k
         then fl (c (vel (bs ! k)) - fl (c (pairForce (bs ! i) (bs ! k)) / mass (bs ! k)))
         else c (vel (bs ! k)))"
    using JB unfolding D h_def .
  show ?thesis
    by (intro exI conjI) (rule r, rule 1, rule 2)
qed

lemma outerLoop_vel:
  assumes s: "0 < s" and n: "n = length b0"
  shows "\<exists>b' c'. outerLoop dt s n 0 b0 0 = Some (b', c') \<and>
     (\<forall>k<n. \<exists>w. b' ! k = softBounds (integrate dt ((b0 ! k)\<lparr>vel := w\<rparr>)) \<and>
        (\<forall>c. component c \<longrightarrow> c w = accumulated c s b0 k))"
proof -
  define FA where "FA c i v j = fl (v + fl (c (pairForce (b0 ! i) (b0 ! j)) / mass (b0 ! i)))"
    for c i v j
  define FB where "FB c k v i = fl (v - fl (c (pairForce (b0 ! i) (b0 ! k)) / mass (b0 ! k)))"
    for c k v i
  define U where "U i k = filter (\<lambda>i'. visits n s i' k) [0..<i]" for i k
  define waiting where "waiting i b k \<longleftrightarrow>
      (\<exists>w. b ! k = (b0 ! k)\<lparr>vel := w\<rparr> \<and>
         (\<forall>c. component c \<longrightarrow> c w = foldl (FB c k) (c (vel (b0 ! k))) (U i k)))" for i b k
  define settled where "settled b k \<longleftrightarrow>
      (\<exists>w. b ! k = softBounds (integrate dt ((b0 ! k)\<lparr>vel := w\<rparr>)) \<and>
         (\<forall>c. component c \<longrightarrow> c w = accumulated c s b0 k))" for b k
  let ?I = "\<lambda>i b (c::nat). length b = n \<and> (\<forall>k<n. i \<le> k \<longrightarrow> waiting i b k) \<and>
      (\<forall>k<n. k < i \<longrightarrow> settled b k)"
  have "\<exists>i' b' c'. outerLoop dt s n 0 b0 0 = Some (b', c') \<and> ?I i' b' c' \<and> n \<le> i'
          \<and> (0 \<le> n \<longrightarrow> i' = n)"
  proof (rule outerLoop_rule [OF s, where I = ?I])
    have "U 0 k = []" for k by (simp add: U_def)
    then have "waiting 0 b0 k" for k
      unfolding waiting_def by (intro exI [of _ "vel (b0 ! k)"]) simp
    then show "?I 0 b0 0" using n by simp
  next
    fix i b c0 b1 c1
    assume I: "?I i b c0" and il: "i < n"
      and inner: "innerLoop s n i (i + 1) (b[i := centerAttraction (b ! i)]) c0 = Some (b1, c1)"
    let ?bs = "b[i := centerAttraction (b ! i)]"
    let ?b2 = "b1[i := softBounds (integrate dt (b1 ! i))]"
    from I have lb: "length b = n" by (elim conjE)
    from I have Ie: "\<forall>k<n. i \<le> k \<longrightarrow> waiting i b k" by (elim conjE)
    from I have Id: "\<forall>k<n. k < i \<longrightarrow> settled b k" by (elim conjE)
    have ls: "n = length ?bs" using lb by simp
    have ilb: "i < length b" using il lb by simp
    \<comment> \<open>what the inner loop keeps\<close>
    from innerLoop_frame [OF s _ ls, of i "i + 1" c0] inner
    have l1: "length b1 = n"
      and v1: "\<forall>k<n. \<exists>w. b1 ! k = (?bs ! k)\<lparr>vel := w\<rparr>"
      and u1: "\<forall>k<i. b1 ! k = ?bs ! k"
      using lb by auto
    have il1: "i < length b1" using il l1 by simp
    \<comment> \<open>the store at the start of the inner loop, against the initial store\<close>
    have bs0: "\<exists>w. ?bs ! k = (b0 ! k)\<lparr>vel := w\<rparr>" if k: "k < n" "i \<le> k" for k
    proof -
      from Ie k obtain w where w: "b ! k = (b0 ! k)\<lparr>vel := w\<rparr>"
        unfolding waiting_def by blast
      show ?thesis
      proof (cases "k = i")
        case True
        then have "?bs ! k = (b0 ! k)\<lparr>vel := vel (centerAttraction (b ! k))\<rparr>"
          using ilb w by (simp add: centerAttraction_def)
        then show ?thesis ..
      next
        case False
        then have "?bs ! k = (b0 ! k)\<lparr>vel := w\<rparr>" using w by simp
        then show ?thesis ..
      qed
    qed
    have force: "pairForce (?bs ! i) (?bs ! k) = pairForce (b0 ! i) (b0 ! k)"
      and mass: "mass (?bs ! k) = mass (b0 ! k)" if k: "k < n" "i \<le> k" for k
    proof -
      from bs0 [OF k] obtain w where w: "?bs ! k = (b0 ! k)\<lparr>vel := w\<rparr>" ..
      from bs0 [OF il order_refl] obtain wi where wi: "?bs ! i = (b0 ! i)\<lparr>vel := wi\<rparr>" ..
      show "pairForce (?bs ! i) (?bs ! k) = pairForce (b0 ! i) (b0 ! k)"
        unfolding w wi by (rule pairForce_vel)
      show "mass (?bs ! k) = mass (b0 ! k)" unfolding w by simp
    qed
    have vis: "k < n" "i \<le> k" if "visits n s i k" for k
      using that by (simp_all add: visits_def)
    \<comment> \<open>the velocities after the inner loop, for each component\<close>
    have vel_i: "c (vel (b1 ! i)) = foldl (FA c i) (c (vel (?bs ! i))) (visited n s i)"
      and vel_k: "\<forall>k<n. k \<noteq> i \<longrightarrow> c (vel (b1 ! k)) =
            (if visits n s i k then FB c k (c (vel (?bs ! k))) i else c (vel (?bs ! k)))"
      if c: "component c" for c
    proof -
      from innerLoop_vel [OF s ls c, of i c0] obtain b' c' where
        r: "innerLoop s n i (i + 1) ?bs c0 = Some (b', c')"
        and a: "c (vel (b' ! i)) =
          foldl (\<lambda>v j. fl (v + fl (c (pairForce (?bs ! i) (?bs ! j)) / mass (?bs ! i))))
            (c (vel (?bs ! i))) (visited n s i)"
        and b: "\<forall>k<n. k \<noteq> i \<longrightarrow> c (vel (b' ! k)) =
          (if visits n s i k
           then fl (c (vel (?bs ! k)) - fl (c (pairForce (?bs ! i) (?bs ! k)) / mass (?bs ! k)))
           else c (vel (?bs ! k)))"
        by (elim exE conjE)
      have eq: "b' = b1" using inner r by simp
      have "foldl (\<lambda>v j. fl (v + fl (c (pairForce (?bs ! i) (?bs ! j)) / mass (?bs ! i))))
            (c (vel (?bs ! i))) (visited n s i) =
          foldl (FA c i) (c (vel (?bs ! i))) (visited n s i)"
      proof (rule foldl_cong [OF refl refl])
        fix v j assume "j \<in> set (visited n s i)"
        then have j: "visits n s i j" by (simp add: visited_def)
        show "fl (v + fl (c (pairForce (?bs ! i) (?bs ! j)) / mass (?bs ! i))) = FA c i v j"
          unfolding force [OF vis [OF j]] mass [OF il order_refl] FA_def ..
      qed
      with a eq show "c (vel (b1 ! i)) = foldl (FA c i) (c (vel (?bs ! i))) (visited n s i)"
        by simp
      show "\<forall>k<n. k \<noteq> i \<longrightarrow> c (vel (b1 ! k)) =
            (if visits n s i k then FB c k (c (vel (?bs ! k))) i else c (vel (?bs ! k)))"
      proof (intro allI impI)
        fix k assume k: "k < n" "k \<noteq> i"
        from b k eq have e: "c (vel (b1 ! k)) =
          (if visits n s i k
           then fl (c (vel (?bs ! k)) - fl (c (pairForce (?bs ! i) (?bs ! k)) / mass (?bs ! k)))
           else c (vel (?bs ! k)))"
          by simp
        show "c (vel (b1 ! k)) =
            (if visits n s i k then FB c k (c (vel (?bs ! k))) i else c (vel (?bs ! k)))"
        proof (cases "visits n s i k")
          case True
          show ?thesis
            unfolding e using True
            by (simp add: force [OF vis [OF True]] mass [OF vis [OF True]] FB_def)
        next
          case False
          then show ?thesis unfolding e by simp
        qed
      qed
    qed
    \<comment> \<open>the bodies that are still to come\<close>
    have later: "waiting (i + 1) ?b2 k" if k: "k < n" "i + 1 \<le> k" for k
    proof -
      from k have ki: "k \<noteq> i" "i \<le> k" by simp_all
      from Ie k(1) ki(2) obtain w where w: "b ! k = (b0 ! k)\<lparr>vel := w\<rparr>"
        and wc: "\<forall>c. component c \<longrightarrow> c w = foldl (FB c k) (c (vel (b0 ! k))) (U i k)"
        unfolding waiting_def by blast
      from v1 k(1) obtain w1 where "b1 ! k = (?bs ! k)\<lparr>vel := w1\<rparr>" by blast
      then have b1k: "b1 ! k = (b0 ! k)\<lparr>vel := vel (b1 ! k)\<rparr>" using ki w by simp
      have U: "U (i + 1) k = U i k @ (if visits n s i k then [i] else [])"
        by (simp add: U_def)
      have "c (vel (b1 ! k)) = foldl (FB c k) (c (vel (b0 ! k))) (U (i + 1) k)"
        if c: "component c" for c
      proof -
        from vel_k [OF c] k(1) ki(1)
        have "c (vel (b1 ! k)) = (if visits n s i k then FB c k (c w) i else c w)"
          by (simp add: w)
        also have "c w = foldl (FB c k) (c (vel (b0 ! k))) (U i k)" using wc c by simp
        finally show ?thesis unfolding U by simp
      qed
      moreover have "?b2 ! k = (b0 ! k)\<lparr>vel := vel (b1 ! k)\<rparr>" using ki b1k by simp
      ultimately show ?thesis unfolding waiting_def by blast
    qed
    \<comment> \<open>the bodies that are through\<close>
    have earlier: "settled ?b2 k" if k: "k < n" "k < i + 1" for k
    proof (cases "k = i")
      case True
      from Ie il obtain w where w: "b ! i = (b0 ! i)\<lparr>vel := w\<rparr>"
        and wc: "\<forall>c. component c \<longrightarrow> c w = foldl (FB c i) (c (vel (b0 ! i))) (U i i)"
        unfolding waiting_def by blast
      from v1 il obtain w1 where "b1 ! i = (?bs ! i)\<lparr>vel := w1\<rparr>" by blast
      then have b1i: "b1 ! i = (b0 ! i)\<lparr>vel := vel (b1 ! i)\<rparr>"
        using ilb w by (simp add: centerAttraction_def)
      have U: "U i i = visitedFrom n s i"
      proof -
        have "filter (\<lambda>i'. visits n s i' i) [0..<n] = filter (\<lambda>i'. visits n s i' i) [0..<i]"
          by (rule filter_upt_beyond) (use il in \<open>simp_all add: visits_def\<close>)
        then show ?thesis by (simp add: U_def visitedFrom_def)
      qed
      have "c (vel (b1 ! i)) = accumulated c s b0 i" if c: "component c" for c
      proof -
        have "c (vel (?bs ! i)) = fl (c w - fl (c (pos (b0 ! i)) * centerPull))"
          using ilb by (simp add: component_centerAttraction [OF c] w)
        also have "c w = foldl (FB c i) (c (vel (b0 ! i))) (U i i)" using wc c by simp
        finally show ?thesis
          unfolding vel_i [OF c] accumulated_def U FA_def FB_def n by simp
      qed
      moreover have "?b2 ! i = softBounds (integrate dt ((b0 ! i)\<lparr>vel := vel (b1 ! i)\<rparr>))"
        using il1 b1i by simp
      ultimately have "settled ?b2 i" unfolding settled_def by blast
      with True show ?thesis by simp
    next
      case False
      with k have ki: "k < i" by simp
      with u1 have "b1 ! k = ?bs ! k" by simp
      then have "?b2 ! k = b ! k" using False by simp
      moreover from Id k(1) ki have "settled b k" by simp
      ultimately show ?thesis unfolding settled_def by simp
    qed
    show "?I (i + 1) ?b2 c1"
    proof (intro conjI)
      show "length ?b2 = n" using l1 by simp
      show "\<forall>k<n. i + 1 \<le> k \<longrightarrow> waiting (i + 1) ?b2 k" using later by blast
      show "\<forall>k<n. k < i + 1 \<longrightarrow> settled ?b2 k" using earlier by blast
    qed
  qed
  then obtain i' b' c' where all: "outerLoop dt s n 0 b0 0 = Some (b', c') \<and> ?I i' b' c' \<and>
      n \<le> i' \<and> (0 \<le> n \<longrightarrow> i' = n)"
    by (elim exE) (rule that)
  from all have r: "outerLoop dt s n 0 b0 0 = Some (b', c')" by (elim conjE)
  from all have "i' = n" by (elim conjE) simp
  moreover from all have "\<forall>k<n. k < i' \<longrightarrow> settled b' k" by (elim conjE)
  ultimately have "\<forall>k<n. settled b' k" by simp
  then have "\<forall>k<n. \<exists>w. b' ! k = softBounds (integrate dt ((b0 ! k)\<lparr>vel := w\<rparr>)) \<and>
        (\<forall>c. component c \<longrightarrow> c w = accumulated c s b0 k)"
    unfolding settled_def .
  with r show ?thesis by (intro exI conjI)
qed

lemma accumulatedVel_component:
  "component c \<Longrightarrow>
     c (accumulatedVel bodies k) = accumulated c (stride_of (length bodies)) bodies k"
  by (auto simp: component_def accumulatedVel_def Let_def)

lemma Vector3_eqI:
  assumes "\<And>c. component c \<Longrightarrow> c u = c v"
  shows "u = (v :: Vector3)"
proof -
  have "vec_x u = vec_x v" "vec_y u = vec_y v" "vec_z u = vec_z v"
    by (rule assms, simp add: component_def)+
  then show ?thesis by simp
qed

lemma updatePhysics_exact:
  "\<exists>bodies' calcs. updatePhysics dt bodies = Some (bodies', calcs) \<and>
      (\<forall>k<length bodies.
         bodies' ! k = softBounds (integrate dt ((bodies ! k)\<lparr>vel := accumulatedVel bodies k\<rparr>)))"
proof -
  have "\<exists>b' c'. outerLoop dt (stride_of (length bodies)) (length bodies) 0 bodies 0
        = Some (b', c') \<and>
     (\<forall>k<length bodies. \<exists>w. b' ! k = softBounds (integrate dt ((bodies ! k)\<lparr>vel := w\<rparr>)) \<and>
        (\<forall>c. component c \<longrightarrow> c w = accumulated c (stride_of (length bodies)) bodies k))"
    by (rule outerLoop_vel [OF stride_of_pos refl])
  then obtain b' c' where r: "outerLoop dt (stride_of (length bodies)) (length bodies) 0 bodies 0
        = Some (b', c')"
    and w: "\<forall>k<length bodies. \<exists>w. b' ! k = softBounds (integrate dt ((bodies ! k)\<lparr>vel := w\<rparr>)) \<and>
        (\<forall>c. component c \<longrightarrow> c w = accumulated c (stride_of (length bodies)) bodies k)"
    by (elim exE conjE)
  have "b' ! k = softBounds (integrate dt ((bodies ! k)\<lparr>vel := accumulatedVel bodies k\<rparr>))"
    if "k < length bodies" for k
  proof -
    from w that obtain w where 1: "b' ! k = softBounds (integrate dt ((bodies ! k)\<lparr>vel := w\<rparr>))"
      and 2: "\<forall>c. component c \<longrightarrow> c w = accumulated c (stride_of (length bodies)) bodies k"
      by blast
    have "w = accumulatedVel bodies k"
      by (rule Vector3_eqI) (simp add: 2 accumulatedVel_component)
    with 1 show ?thesis by simp
  qed
  with r show ?thesis by (simp add: updatePhysics_def Let_def)
qed

lemma pairsVisited_visited:
  "pairsVisited n s = (\<Sum>i<n. length (visited n s i))"
proof -
  have "card {j. i < j \<and> j < n \<and> (\<exists>k. j = i + 1 + k * s)} = length (visited n s i)" for i
  proof -
    have "{j. i < j \<and> j < n \<and> (\<exists>k. j = i + 1 + k * s)} = set (visited n s i)"
      by (auto simp: visited_def visits_iff)
    moreover have "distinct (visited n s i)" by (simp add: visited_def)
    ultimately show ?thesis by (simp add: distinct_card)
  qed
  then show ?thesis by (simp add: pairsVisited_def)
qed

lemma accumulatedVel_rest: "accumulatedVel [restBody, restBody] 0 = \<lparr>vec_x = 0, vec_y = 0, vec_z = 0\<rparr>"
proof -
  have u: "[0..<2] = [0, Suc 0]" by (simp add: numeral_2_eq_2)
  have l: "length [restBody, restBody] = 2" by simp
  have s: "stride_of 2 = 1" by (simp add: stride_of_def)
  have v: "visited 2 1 0 = [Suc 0]" unfolding visited_def u by (simp add: visits_def)
  have f: "visitedFrom 2 1 0 = []" unfolding visitedFrom_def u by (simp add: visits_def)
  have p: "pairForce restBody restBody = \<lparr>vec_x = 0, vec_y = 0, vec_z = 0\<rparr>"
    by (simp add: pairForce_def gravity_def stress_def restBody_def Let_def Math_sin_def
        Math_tan_def)
  show ?thesis
    unfolding accumulatedVel_def accumulated_def Let_def l s v f
    by (simp add: p) (simp add: restBody_def)
qed

section \<open>The population over a run\<close>

lemma rampLogic_appends:
  "\<exists>spawned. bodiesRef (rampLogic T random now s) = bodiesRef s @ spawned"
  by (simp add: rampLogic_def Let_def addParticles_eq)

lemma loop_total_mono:
  "\<exists>s'. loop T random canvasRefs now s = Some s' \<and>
        length (bodiesRef s) \<le> length (bodiesRef s')"
proof (cases "ctxReady canvasRefs")
  case False
  then show ?thesis by (simp add: loop_waiting)
next
  case True
  have g: "length (bodiesRef s) \<le> length (bodiesRef (rampLogic T random now s))"
    by (simp add: rampLogic_length)
  show ?thesis
  proof (cases "endTime s \<le> now")
    case True
    with \<open>ctxReady canvasRefs\<close> g show ?thesis
      by (simp add: loop_finish finish_fields)
  next
    case False
    then have "now < endTime s" by simp
    from loop_physics [OF \<open>ctxReady canvasRefs\<close> this, of T random]
    obtain bodies' where
      u: "updatePhysics 0.5 (bodiesRef (rampLogic T random now s)) =
            Some (bodies', pairsVisited (length (bodiesRef (rampLogic T random now s)))
                             (stride_of (length (bodiesRef (rampLogic T random now s)))))"
      and l: "loop T random canvasRefs now s =
       Some ((rampLogic T random now s)
              \<lparr>frameCount := frameCount (rampLogic T random now s) + 1,
               bodiesRef := bodies',
               totalCalcsRef := totalCalcsRef s +
                 pairsVisited (length (bodiesRef (rampLogic T random now s)))
                   (stride_of (length (bodiesRef (rampLogic T random now s)))),
               framePending := True\<rparr>)"
      by blast
    from updatePhysics_length [OF u] g l show ?thesis by simp
  qed
qed

lemma frames_stopped: "\<not> framePending s \<Longrightarrow> frames T random fs s = Some s"
  by (cases fs) auto

lemma frames_append:
  "frames T random (fs1 @ fs2) s =
     (case frames T random fs1 s of None \<Rightarrow> None | Some s1 \<Rightarrow> frames T random fs2 s1)"
proof (induction fs1 arbitrary: s)
  case Nil
  show ?case by simp
next
  case (Cons f fs1)
  obtain canvasRefs now where f: "f = (canvasRefs, now)" by (cases f)
  show ?case
  proof (cases "framePending s")
    case True
    then show ?thesis using Cons.IH by (simp add: f split: option.splits)
  next
    case False
    then show ?thesis by (simp add: f frames_stopped)
  qed
qed

lemma frames_total_mono:
  "\<exists>s'. frames T random fs s = Some s' \<and> length (bodiesRef s) \<le> length (bodiesRef s')"
proof (induction fs arbitrary: s)
  case Nil
  show ?case by simp
next
  case (Cons f fs)
  obtain canvasRefs now where f: "f = (canvasRefs, now)" by (cases f)
  show ?case
  proof (cases "framePending s")
    case True
    from loop_total_mono [of T random canvasRefs now s] obtain s1
      where 1: "loop T random canvasRefs now s = Some s1"
        "length (bodiesRef s) \<le> length (bodiesRef s1)" by blast
    from Cons.IH [of s1] obtain s' where "frames T random fs s1 = Some s'"
      "length (bodiesRef s1) \<le> length (bodiesRef s')" by blast
    with 1 True show ?thesis by (simp add: f)
  next
    case False
    then show ?thesis by (simp add: f)
  qed
qed

section \<open>One interaction on concrete bodies\<close>

text \<open>
  The interaction of \<open>lightBody\<close> and \<open>heavyBody\<close>, operation by operation. The distance is
  \<open>sqrt (24 * 24 + 100) = 26\<close>, and the stress term is zero since the bodies differ on the y
  axis only.
\<close>

lemma sqrt_676: "sqrt 676 = 26"
  by (rule real_sqrt_unique) simp_all

lemma mass_heavyBody: "mass heavyBody = 8106479329266893 / 2 ^ 52"
proof -
  have "fl (9 / 5) = 8106479329266893 / 2 ^ 52"
    by (subst fl_up [where e = 0]) (simp_all add: rne_def)
  then show ?thesis by (simp add: heavyBody_def)
qed

lemma gravity_light_heavy:
  "gravity lightBody heavyBody = \<lparr>vec_x = 0, vec_y = 8501287380350899 / 2 ^ 62, vec_z = 0\<rparr>"
proof -
  have "gravity lightBody heavyBody =
      \<lparr>vec_x = 0,
       vec_y = fl (fl (24 / 26) * fl (fl (fl (1 / 2 * (3 / 2)) * mass heavyBody) / 676)),
       vec_z = 0\<rparr>"
    by (simp add: gravity_def Let_def lightBody_def G_def Math_sqrt_def sqrt_676)
      (simp add: heavyBody_def)
  also have "fl (1 / 2 * (3 / 2)) = 3 / 4"
    by (subst fl_down [where k = 1]) (simp_all add: rne_def)
  also have "mass heavyBody = 8106479329266893 / 2 ^ 52"
    by (rule mass_heavyBody)
  also have "fl (3 / 4 * (8106479329266893 / 2 ^ 52)) = 3039929748475085 / 2 ^ 51"
    by (subst fl_up [where e = 0]) (simp_all add: rne_def)
  also have "fl (3039929748475085 / 2 ^ 51 / 676) = 2302431998845035 / 2 ^ 60"
    by (subst fl_down [where k = 9]) (simp_all add: rne_def)
  also have "fl (24 / 26) = 4157168886803535 / 2 ^ 52"
    by (subst fl_down [where k = 1]) (simp_all add: rne_def)
  also have "fl (4157168886803535 / 2 ^ 52 * (2302431998845035 / 2 ^ 60))
      = 8501287380350899 / 2 ^ 62"
    by (subst fl_down [where k = 10]) (simp_all add: rne_def)
  finally show ?thesis .
qed

lemma stress_light_heavy: "stress lightBody heavyBody = 0"
  by (simp add: stress_def Let_def lightBody_def heavyBody_def Math_sin_def Math_tan_def)

lemma pairForce_light_heavy:
  "pairForce lightBody heavyBody = \<lparr>vec_x = 0, vec_y = 8501287380350899 / 2 ^ 62, vec_z = 0\<rparr>"
proof -
  have "fl (8501287380350899 / 2 ^ 62) = 8501287380350899 / 2 ^ 62"
    by (subst fl_down [where k = 10]) (simp_all add: rne_def)
  then show ?thesis
    by (simp add: pairForce_def gravity_light_heavy stress_light_heavy)
qed

lemma pushed_light:
  "fl (0 + fl (8501287380350899 / 2 ^ 62 / (3 / 2))) = 5667524920233933 / 2 ^ 62"
proof -
  have "fl (8501287380350899 / 2 ^ 62 / (3 / 2)) = 5667524920233933 / 2 ^ 62"
    by (subst fl_down [where k = 10]) (simp_all add: rne_def)
  moreover have "fl (0 + 5667524920233933 / 2 ^ 62) = 5667524920233933 / 2 ^ 62"
    by (subst fl_down [where k = 10]) (simp_all add: rne_def)
  ultimately show ?thesis by (simp only:)
qed

lemma pulled_heavy:
  "fl (0 - fl (8501287380350899 / 2 ^ 62 / (8106479329266893 / 2 ^ 52)))
     = - (4722937433528277 / 2 ^ 62)"
proof -
  have "fl (8501287380350899 / 2 ^ 62 / (8106479329266893 / 2 ^ 52))
      = 4722937433528277 / 2 ^ 62"
    by (subst fl_down [where k = 10]) (simp_all add: rne_def)
  moreover have "fl (0 - 4722937433528277 / 2 ^ 62) = - (4722937433528277 / 2 ^ 62)"
    by (subst fl_down [where k = 10]) (simp_all add: rne_def)
  ultimately show ?thesis by (simp only:)
qed

lemma pairStep_light_heavy:
  "vec_y (vel (pairStep 0 1 [lightBody, heavyBody] ! 0)) = 5667524920233933 / 2 ^ 62"
  "vec_y (vel (pairStep 0 1 [lightBody, heavyBody] ! 1)) = - (4722937433528277 / 2 ^ 62)"
proof -
  have c: "component vec_y" by (simp add: component_def)
  have ij: "(0::nat) < 1" "1 < length [lightBody, heavyBody]" by simp_all
  have a: "pairStep 0 1 [lightBody, heavyBody] ! 0 = pushA (pairForce lightBody heavyBody) lightBody"
    and b: "pairStep 0 1 [lightBody, heavyBody] ! 1 = pullB (pairForce lightBody heavyBody) heavyBody"
    unfolding pairStep_nth [OF ij] by simp_all
  have "vec_y (vel (pairStep 0 1 [lightBody, heavyBody] ! 0)) =
      fl (vec_y (vel lightBody) + fl (vec_y (pairForce lightBody heavyBody) / mass lightBody))"
    unfolding a by (rule component_pushA [OF c])
  also have "\<dots> = fl (0 + fl (8501287380350899 / 2 ^ 62 / (3 / 2)))"
    by (simp only: pairForce_light_heavy) (simp add: lightBody_def)
  finally show "vec_y (vel (pairStep 0 1 [lightBody, heavyBody] ! 0)) = 5667524920233933 / 2 ^ 62"
    by (simp only: pushed_light)
  have "vec_y (vel (pairStep 0 1 [lightBody, heavyBody] ! 1)) =
      fl (vec_y (vel heavyBody) - fl (vec_y (pairForce lightBody heavyBody) / mass heavyBody))"
    unfolding b by (rule component_pullB [OF c])
  also have "\<dots> = fl (0 - fl (8501287380350899 / 2 ^ 62 / (8106479329266893 / 2 ^ 52)))"
    by (simp only: pairForce_light_heavy mass_heavyBody) (simp add: heavyBody_def)
  finally show "vec_y (vel (pairStep 0 1 [lightBody, heavyBody] ! 1))
      = - (4722937433528277 / 2 ^ 62)"
    by (simp only: pulled_heavy)
qed

section \<open>The mean of concrete histories\<close>

lemma historyRef_driftApp:
  "map fps (historyRef driftApp) =
     [6433713753386423 / 2 ^ 47, 2890144850154057 / 2 ^ 46, 6031606643799771 / 2 ^ 49]"
proof -
  have 1: "fl (24000 / 525) = 6433713753386423 / 2 ^ 47"
    by (subst fl_up [where e = 5]) (simp_all add: rne_def)
  have 2: "fl (23000 / 560) = 2890144850154057 / 2 ^ 46"
    by (subst fl_up [where e = 5]) (simp_all add: rne_def)
  have 3: "fl (6000 / 560) = 6031606643799771 / 2 ^ 49"
    by (subst fl_up [where e = 3]) (simp_all add: rne_def)
  show ?thesis unfolding driftApp_def initialApp_def 1 2 3 by simp
qed

lemma foldl_fps_map:
  "foldl (\<lambda>acc curr. fl (acc + fps curr)) a data = foldl (\<lambda>acc v. fl (acc + v)) a (map fps data)"
  by (induction data arbitrary: a) simp_all

lemma average_driftApp: "average (historyRef driftApp) = 4573968371548159 / 2 ^ 47"
proof -
  have "length (historyRef driftApp) = length (map fps (historyRef driftApp))" by simp
  also have "\<dots> = 3" unfolding historyRef_driftApp by simp
  finally have l: "length (historyRef driftApp) = 3" .
  have "average (historyRef driftApp) =
      fl (fl (fl (fl (0 + 6433713753386423 / 2 ^ 47) + 2890144850154057 / 2 ^ 46)
              + 6031606643799771 / 2 ^ 49) / real 3)"
    unfolding average_def l foldl_fps_map historyRef_driftApp by simp
  also have "fl (0 + 6433713753386423 / 2 ^ 47) = 6433713753386423 / 2 ^ 47"
    by (subst fl_up [where e = 5]) (simp_all add: rne_def)
  also have "fl (6433713753386423 / 2 ^ 47 + 2890144850154057 / 2 ^ 46)
      = 1526750431711817 / 2 ^ 44"
    by (subst fl_up [where e = 6]) (simp_all add: rne_def)
  also have "fl (1526750431711817 / 2 ^ 44 + 6031606643799771 / 2 ^ 49)
      = 6860952557322239 / 2 ^ 46"
    by (subst fl_up [where e = 6]) (simp_all add: rne_def)
  also have "fl (6860952557322239 / 2 ^ 46 / real 3) = 4573968371548159 / 2 ^ 47"
    by (subst fl_up [where e = 5]) (simp_all add: rne_def)
  finally show ?thesis .
qed

lemma meanFps_driftApp: "meanFps (historyRef driftApp) = 54887620458577919 / (3 * 2 ^ 49)"
proof -
  have "historyRef driftApp \<noteq> []" by (simp add: driftApp_def initialApp_def)
  moreover have "length (historyRef driftApp) = length (map fps (historyRef driftApp))" by simp
  ultimately show ?thesis
    unfolding meanFps_def historyRef_driftApp by simp
qed

lemma average_roundApp: "average (historyRef roundApp) = 125 / 2"
proof -
  have "fl (125 / 2) = 125 / 2"
    by (subst fl_up [where e = 5]) (simp_all add: rne_def)
  moreover have "historyRef roundApp = [\<lparr>time = fl (14/25), fps = 125 / 2, particles = 2500\<rparr>]"
    by (simp add: roundApp_def initialApp_def)
  ultimately show ?thesis by (simp only: average_single)
qed

section \<open>One call of the integrator on two concrete bodies\<close>

lemma accumulated_pair:
  "accumulated c 1 [a, b] 0 =
     fl (fl (c (vel a) - fl (c (pos a) * centerPull)) + fl (c (pairForce a b) / mass a))"
  "accumulated c 1 [a, b] 1 =
     fl (fl (c (vel b) - fl (c (pairForce a b) / mass b)) - fl (c (pos b) * centerPull))"
proof -
  have u: "[0..<2] = [0, Suc 0]" by (simp add: numeral_2_eq_2)
  have l: "length [a, b] = 2" by simp
  have v: "visited 2 1 0 = [Suc 0]" "visited 2 1 1 = []"
    unfolding visited_def u by (simp_all add: visits_def)
  have f: "visitedFrom 2 1 0 = []" "visitedFrom 2 1 1 = [0]"
    unfolding visitedFrom_def u by (simp_all add: visits_def)
  show "accumulated c 1 [a, b] 0 =
     fl (fl (c (vel a) - fl (c (pos a) * centerPull)) + fl (c (pairForce a b) / mass a))"
    unfolding accumulated_def l v f by simp
  show "accumulated c 1 [a, b] 1 =
     fl (fl (c (vel b) - fl (c (pairForce a b) / mass b)) - fl (c (pos b) * centerPull))"
    unfolding accumulated_def l v f by simp
qed

lemma accumulatedVel_light_heavy:
  "accumulatedVel [lightBody, heavyBody] 0 =
     \<lparr>vec_x = 0, vec_y = 5667524920233933 / 2 ^ 62, vec_z = 0\<rparr>"
  "accumulatedVel [lightBody, heavyBody] 1 =
     \<lparr>vec_x = 0, vec_y = - (2914871038975425 / 2 ^ 61), vec_z = 0\<rparr>"
proof -
  have l: "length [lightBody, heavyBody] = 2" by simp
  have s: "stride_of 2 = 1" by (simp add: stride_of_def)
  have z: "fl (0 - fl (0 * centerPull)) = 0" by simp
  have x0: "accumulated vec_x 1 [lightBody, heavyBody] 0 = 0"
    and z0: "accumulated vec_z 1 [lightBody, heavyBody] 0 = 0"
    and x1: "accumulated vec_x 1 [lightBody, heavyBody] 1 = 0"
    and z1: "accumulated vec_z 1 [lightBody, heavyBody] 1 = 0"
    unfolding accumulated_pair pairForce_light_heavy
    by (simp_all add: lightBody_def heavyBody_def)
  have "accumulated vec_y 1 [lightBody, heavyBody] 0 =
      fl (fl (0 - fl (0 * centerPull)) + fl (8501287380350899 / 2 ^ 62 / (3 / 2)))"
    unfolding accumulated_pair pairForce_light_heavy by (simp add: lightBody_def)
  also have "\<dots> = 5667524920233933 / 2 ^ 62"
    unfolding z by (rule pushed_light)
  finally have y0: "accumulated vec_y 1 [lightBody, heavyBody] 0 = 5667524920233933 / 2 ^ 62" .
  have c: "centerPull = 5902958103587057 / 2 ^ 69"
    unfolding centerPull_def by (subst fl_down [where k = 17]) (simp_all add: rne_def)
  have t: "fl (24 * (5902958103587057 / 2 ^ 69)) = 4427218577690293 / 2 ^ 64"
    by (subst fl_down [where k = 13]) (simp_all add: rne_def)
  have d: "fl (- (4722937433528277 / 2 ^ 62) - 4427218577690293 / 2 ^ 64)
      = - (2914871038975425 / 2 ^ 61)"
    by (subst fl_down [where k = 10]) (simp_all add: rne_def)
  have "accumulated vec_y 1 [lightBody, heavyBody] 1 =
      fl (fl (0 - fl (8501287380350899 / 2 ^ 62 / (8106479329266893 / 2 ^ 52)))
          - fl (24 * centerPull))"
    unfolding accumulated_pair pairForce_light_heavy mass_heavyBody
    by (simp add: heavyBody_def)
  also have "\<dots> = - (2914871038975425 / 2 ^ 61)"
    unfolding pulled_heavy c t d ..
  finally have y1: "accumulated vec_y 1 [lightBody, heavyBody] 1
      = - (2914871038975425 / 2 ^ 61)" .
  show "accumulatedVel [lightBody, heavyBody] 0 =
     \<lparr>vec_x = 0, vec_y = 5667524920233933 / 2 ^ 62, vec_z = 0\<rparr>"
    unfolding accumulatedVel_def Let_def l s x0 y0 z0 ..
  show "accumulatedVel [lightBody, heavyBody] 1 =
     \<lparr>vec_x = 0, vec_y = - (2914871038975425 / 2 ^ 61), vec_z = 0\<rparr>"
    unfolding accumulatedVel_def Let_def l s x1 y1 z1 ..
qed

text \<open>The two bodies with these velocities, after the integration and the soft bounds.\<close>

lemma settled_light:
  "softBounds (integrate (1/2)
     (lightBody\<lparr>vel := \<lparr>vec_x = 0, vec_y = 5667524920233933 / 2 ^ 62, vec_z = 0\<rparr>\<rparr>)) =
   \<lparr>pos = \<lparr>vec_x = 0, vec_y = 5667524920233933 / 2 ^ 63, vec_z = 0\<rparr>,
    vel = \<lparr>vec_x = 0, vec_y = 5667524920233933 / 2 ^ 62, vec_z = 0\<rparr>,
    mass = 3 / 2, size3D = 2\<rparr>"
proof -
  have 1: "fl (5667524920233933 / 2 ^ 62 * (1 / 2)) = 5667524920233933 / 2 ^ 63"
    by (subst fl_down [where k = 11]) (simp_all add: rne_def)
  have 2: "fl (0 + 5667524920233933 / 2 ^ 63) = 5667524920233933 / 2 ^ 63"
    by (subst fl_down [where k = 11]) (simp_all add: rne_def)
  have p: "fl (0 + fl (5667524920233933 / 2 ^ 62 * (1 / 2))) = 5667524920233933 / 2 ^ 63"
    unfolding 1 2 ..
  have n: "\<not> \<bar>5667524920233933 / 2 ^ 63 :: real\<bar> > 4000" by simp
  have "integrate (1/2)
     (lightBody\<lparr>vel := \<lparr>vec_x = 0, vec_y = 5667524920233933 / 2 ^ 62, vec_z = 0\<rparr>\<rparr>) =
   \<lparr>pos = \<lparr>vec_x = 0, vec_y = fl (0 + fl (5667524920233933 / 2 ^ 62 * (1 / 2))), vec_z = 0\<rparr>,
    vel = \<lparr>vec_x = 0, vec_y = 5667524920233933 / 2 ^ 62, vec_z = 0\<rparr>,
    mass = 3 / 2, size3D = 2\<rparr>"
    by (simp add: integrate_def lightBody_def)
  then show ?thesis
    unfolding p using n by (simp add: softBounds_def bounce_def)
qed

lemma settled_heavy:
  "softBounds (integrate (1/2)
     (heavyBody\<lparr>vel := \<lparr>vec_x = 0, vec_y = - (2914871038975425 / 2 ^ 61), vec_z = 0\<rparr>\<rparr>)) =
   \<lparr>pos = \<lparr>vec_x = 0, vec_y = 211100672857701 / 2 ^ 43, vec_z = 0\<rparr>,
    vel = \<lparr>vec_x = 0, vec_y = - (2914871038975425 / 2 ^ 61), vec_z = 0\<rparr>,
    mass = 8106479329266893 / 2 ^ 52, size3D = 2\<rparr>"
proof -
  have 1: "fl (- (2914871038975425 / 2 ^ 61) * (1 / 2)) = - (2914871038975425 / 2 ^ 62)"
    by (subst fl_down [where k = 11]) (simp_all add: rne_def)
  have 2: "fl (24 + - (2914871038975425 / 2 ^ 62)) = 211100672857701 / 2 ^ 43"
    by (subst fl_up [where e = 4]) (simp_all add: rne_def)
  have p: "fl (24 + fl (- (2914871038975425 / 2 ^ 61) * (1 / 2))) = 211100672857701 / 2 ^ 43"
    unfolding 1 2 ..
  have n: "\<not> \<bar>211100672857701 / 2 ^ 43 :: real\<bar> > 4000" by simp
  have "integrate (1/2)
     (heavyBody\<lparr>vel := \<lparr>vec_x = 0, vec_y = - (2914871038975425 / 2 ^ 61), vec_z = 0\<rparr>\<rparr>) =
   \<lparr>pos = \<lparr>vec_x = 0, vec_y = fl (24 + fl (- (2914871038975425 / 2 ^ 61) * (1 / 2))), vec_z = 0\<rparr>,
    vel = \<lparr>vec_x = 0, vec_y = - (2914871038975425 / 2 ^ 61), vec_z = 0\<rparr>,
    mass = mass heavyBody, size3D = 2\<rparr>"
    by (simp add: integrate_def heavyBody_def)
  then show ?thesis
    unfolding p mass_heavyBody using n by (simp add: softBounds_def bounce_def)
qed

lemma list_of_two: "length xs = 2 \<Longrightarrow> xs = [xs ! 0, xs ! 1]"
  by (cases xs; cases "tl xs") auto

section \<open>The claims\<close>



text \<open>
  C2. One call of the integrator on \<open>n\<close> bodies returns, and the count it returns is the
  number of index pairs the strided loop visits: for each \<open>i < n\<close> the number of \<open>j\<close> with
  \<open>i < j < n\<close> of the form \<open>i + 1 + k * s\<close>, where the stride \<open>s\<close> is 1 for \<open>n \<le> 8000\<close> and
  \<open>ceil (n / 4000)\<close> above (1 at 8000, 4 at 16000). These are the pairs whose forces the call
  applies (the lists \<open>visited\<close>). Up to 8000 bodies the count is \<open>n * (n - 1) / 2\<close>; above 8000
  it is strictly less. A frame that integrates adds the count of its call, made
  on the store as it is after the ramp, to \<open>totalCalcsRef\<close>.
\<close>

theorem updatePhysics_calcs_pairsVisited:
  "(\<exists>bodies'. updatePhysics dt bodies =
       Some (bodies', pairsVisited (length bodies) (stride_of (length bodies)))) \<and>
   pairsVisited n stride = (\<Sum>i<n. length (visited n stride i)) \<and>
   (n \<le> 8000 \<longrightarrow> stride_of n = 1) \<and>
   (8000 < n \<longrightarrow> stride_of n = nat \<lceil>real n / 4000\<rceil>) \<and>
   stride_of 8000 = 1 \<and> stride_of 16000 = 4 \<and>
   (n \<le> 8000 \<longrightarrow> pairsVisited n (stride_of n) = n * (n - 1) div 2) \<and>
   (8000 < n \<longrightarrow> pairsVisited n (stride_of n) < n * (n - 1) div 2) \<and>
   (ctxReady canvasRefs \<and> now < endTime s \<longrightarrow>
      (\<exists>s'. loop T random canvasRefs now s = Some s' \<and>
         totalCalcsRef s' = totalCalcsRef s +
           pairsVisited (length (bodiesRef (rampLogic T random now s)))
             (stride_of (length (bodiesRef (rampLogic T random now s))))))"
proof (intro conjI impI)
  show "\<exists>bodies'. updatePhysics dt bodies =
       Some (bodies', pairsVisited (length bodies) (stride_of (length bodies)))"
    by (rule updatePhysics_calcs)
  show "pairsVisited n stride = (\<Sum>i<n. length (visited n stride i))"
    by (rule pairsVisited_visited)
  show "stride_of 8000 = 1" "stride_of 16000 = 4"
    by (simp_all add: stride_of_div)
next
  assume "n \<le> 8000"
  then show "stride_of n = 1" by (simp add: stride_of_def)
  then show "pairsVisited n (stride_of n) = n * (n - 1) div 2"
    by (simp only: pairsVisited_dense)
next
  assume n: "8000 < n"
  then show "stride_of n = nat \<lceil>real n / 4000\<rceil>" by (simp add: stride_of_def)
  from n have "2 \<le> stride_of n" using stride_of_large [of n] by simp
  moreover from n have "3 \<le> n" by simp
  ultimately show "pairsVisited n (stride_of n) < n * (n - 1) div 2"
    by (rule pairsVisited_sparse)
next
  assume "ctxReady canvasRefs \<and> now < endTime s"
  then obtain bodies' where
    "loop T random canvasRefs now s =
       Some ((rampLogic T random now s)
              \<lparr>frameCount := frameCount (rampLogic T random now s) + 1,
               bodiesRef := bodies',
               totalCalcsRef := totalCalcsRef s +
                 pairsVisited (length (bodiesRef (rampLogic T random now s)))
                   (stride_of (length (bodiesRef (rampLogic T random now s)))),
               framePending := True\<rparr>)"
    using loop_physics [of canvasRefs now s T random] by blast
  then show "\<exists>s'. loop T random canvasRefs now s = Some s' \<and>
         totalCalcsRef s' = totalCalcsRef s +
           pairsVisited (length (bodiesRef (rampLogic T random now s)))
             (stride_of (length (bodiesRef (rampLogic T random now s))))"
    by simp
qed

theorem updatePhysics_calcs_pairsVisited_witness:
  "(\<exists>bodies'. updatePhysics (1/2) [restBody, restBody, restBody] = Some (bodies', 3)) \<and>
   (3::nat) \<le> 8000 \<and> stride_of 3 = 1 \<and> pairsVisited 3 (stride_of 3) = 3 \<and>
   (8000::nat) < 8001 \<and> stride_of 8001 = 3 \<and> pairsVisited 8001 (stride_of 8001) < 32004000 \<and>
   ctxReady readyCanvas \<and> (0::real) < endTime (initialApp\<lparr>endTime := 1\<rparr>) \<and>
   (\<exists>s'. loop 1 (\<lambda>k. 0) readyCanvas 0 (initialApp\<lparr>endTime := 1\<rparr>) = Some s' \<and>
      totalCalcsRef s' = 0)"
proof -
  note t = updatePhysics_calcs_pairsVisited
    [of "1/2" "[restBody, restBody, restBody]" 3 1 readyCanvas 0 "initialApp\<lparr>endTime := 1\<rparr>" 1 "\<lambda>k. 0"]
  have len: "length [restBody, restBody, restBody] = 3" by simp
  from t have s3: "stride_of 3 = 1" by (elim conjE) simp
  from t have "pairsVisited 3 (stride_of 3) = 3 * (3 - 1) div 2" by (elim conjE) simp
  then have p3: "pairsVisited 3 (stride_of 3) = 3" by simp
  have run: "\<exists>bodies'. updatePhysics (1/2) [restBody, restBody, restBody] = Some (bodies', 3)"
    using t unfolding len p3 by (elim conjE)
  note u = updatePhysics_calcs_pairsVisited
    [of "1/2" "[]" 8001 3 readyCanvas 0 initialApp 1 "\<lambda>k. 0"]
  from u have "stride_of 8001 = nat \<lceil>real 8001 / 4000\<rceil>"
    by (elim conjE) simp
  moreover from u have "pairsVisited 8001 (stride_of 8001) < 8001 * (8001 - 1) div 2"
    by (elim conjE) simp
  moreover have "nat \<lceil>real 8001 / 4000\<rceil> = 3" by simp
  ultimately have large: "stride_of 8001 = 3 \<and> pairsVisited 8001 (stride_of 8001) < 32004000"
    by simp
  have ready: "ctxReady readyCanvas \<and> (0::real) < endTime (initialApp\<lparr>endTime := 1\<rparr>)"
    by (simp add: ctxReady_readyCanvas)
  have ramp: "rampLogic 1 (\<lambda>k. 0) 0 (initialApp\<lparr>endTime := 1\<rparr>) = initialApp\<lparr>endTime := 1\<rparr>"
    by (simp add: rampLogic_def initialApp_def)
  have empty: "pairsVisited 0 (stride_of 0) = 0"
    by (simp add: pairsVisited_def)
  have "\<exists>s'. loop 1 (\<lambda>k. 0) readyCanvas 0 (initialApp\<lparr>endTime := 1\<rparr>) = Some s' \<and>
      totalCalcsRef s' = 0"
  proof -
    from t ready have "\<exists>s'. loop 1 (\<lambda>k. 0) readyCanvas 0 (initialApp\<lparr>endTime := 1\<rparr>) = Some s' \<and>
      totalCalcsRef s' = totalCalcsRef (initialApp\<lparr>endTime := 1\<rparr>) +
        pairsVisited (length (bodiesRef (rampLogic 1 (\<lambda>k. 0) 0 (initialApp\<lparr>endTime := 1\<rparr>))))
          (stride_of (length (bodiesRef (rampLogic 1 (\<lambda>k. 0) 0 (initialApp\<lparr>endTime := 1\<rparr>)))))"
      by (elim conjE) simp
    then show ?thesis unfolding ramp by (simp add: initialApp_def empty)
  qed
  with s3 p3 run large ready show ?thesis by auto
qed

text \<open>
  C3. The ramp decision maps the measured fps to the number of bodies to add with strict
  comparisons: above 45 it is 1000, below 15 it is 100, and every other value, 45 and 15
  themselves included, gives 400. The amount is never zero (nor negative: it is a natural
  number), and adding it makes the store strictly longer.
\<close>

theorem rampAmount_strict:
  "(45 < currentFps \<longrightarrow> rampAmount currentFps = 1000) \<and>
   (currentFps < 15 \<longrightarrow> rampAmount currentFps = 100) \<and>
   (15 \<le> currentFps \<and> currentFps \<le> 45 \<longrightarrow> rampAmount currentFps = 400) \<and>
   rampAmount 45 = 400 \<and> rampAmount 15 = 400 \<and>
   0 < rampAmount currentFps \<and>
   length (bodiesRef s) < length (bodiesRef (addParticles random (rampAmount currentFps) s))"
  by (simp add: rampAmount_def addParticles_length)

theorem rampAmount_strict_witness:
  "(45::real) < 60 \<and> rampAmount 60 = 1000 \<and> (10::real) < 15 \<and> rampAmount 10 = 100 \<and>
   (15::real) \<le> 30 \<and> (30::real) \<le> 45 \<and> rampAmount 30 = 400"
  using rampAmount_strict [of 60] rampAmount_strict [of 10] rampAmount_strict [of 30]
  by simp

text \<open>
  C4, as amended. A call of \<open>loop\<close> with the context ready first makes the sampling check
  and, if more than 500 ms have passed since the last sample, appends the telemetry sample
  and adds the ramp amount to the store. Then it checks termination: once \<open>now\<close> has reached
  \<open>endTime\<close> the run is finished from the state after sampling, without an integration step.
  Only otherwise one integration step follows, on the store as it is after the ramp, and
  its count is added to \<open>totalCalcsRef\<close>.
\<close>

theorem loop_order:
  "(now \<le> fl (lastMetricTime s + 500) \<longrightarrow> rampLogic T random now s = s) \<and>
   (fl (lastMetricTime s + 500) < now \<longrightarrow>
      historyRef (rampLogic T random now s) =
        historyRef s @ [\<lparr>time = fl (fl (now - startTime s) / 1000),
                         fps = fl (fl (real (frameCount s) * 1000) / fl (now - lastMetricTime s)),
                         particles = length (bodiesRef s)\<rparr>] \<and>
      length (bodiesRef (rampLogic T random now s)) =
        length (bodiesRef s) +
          rampAmount (fl (fl (real (frameCount s) * 1000) / fl (now - lastMetricTime s)))) \<and>
   (ctxReady canvasRefs \<and> endTime s \<le> now \<longrightarrow>
      loop T random canvasRefs now s = Some (finish (rampLogic T random now s)) \<and>
      runState (finish (rampLogic T random now s)) = Finished \<and>
      bodiesRef (finish (rampLogic T random now s)) = bodiesRef (rampLogic T random now s) \<and>
      totalCalcsRef (finish (rampLogic T random now s)) = totalCalcsRef s) \<and>
   (ctxReady canvasRefs \<and> now < endTime s \<longrightarrow>
      (\<exists>bodies' calcs.
         updatePhysics 0.5 (bodiesRef (rampLogic T random now s)) = Some (bodies', calcs) \<and>
         loop T random canvasRefs now s =
           Some ((rampLogic T random now s)
                  \<lparr>frameCount := frameCount (rampLogic T random now s) + 1,
                   bodiesRef := bodies',
                   totalCalcsRef := totalCalcsRef s + calcs,
                   framePending := True\<rparr>)))"
proof (intro conjI impI)
  assume "now \<le> fl (lastMetricTime s + 500)"
  then show "rampLogic T random now s = s" by (rule rampLogic_idle)
next
  assume a: "fl (lastMetricTime s + 500) < now"
  then show "historyRef (rampLogic T random now s) =
        historyRef s @ [\<lparr>time = fl (fl (now - startTime s) / 1000),
                         fps = fl (fl (real (frameCount s) * 1000) / fl (now - lastMetricTime s)),
                         particles = length (bodiesRef s)\<rparr>]"
    by (rule rampLogic_history)
  from a show "length (bodiesRef (rampLogic T random now s)) =
        length (bodiesRef s) +
          rampAmount (fl (fl (real (frameCount s) * 1000) / fl (now - lastMetricTime s)))"
    by (simp add: rampLogic_length)
next
  assume a: "ctxReady canvasRefs \<and> endTime s \<le> now"
  then show "loop T random canvasRefs now s = Some (finish (rampLogic T random now s))"
    by (simp add: loop_finish)
  show "runState (finish (rampLogic T random now s)) = Finished"
    by (simp add: runState_def finish_fields)
  show "bodiesRef (finish (rampLogic T random now s)) = bodiesRef (rampLogic T random now s)"
    by (simp add: finish_fields)
  show "totalCalcsRef (finish (rampLogic T random now s)) = totalCalcsRef s"
    by (simp add: finish_fields rampLogic_keeps)
next
  assume "ctxReady canvasRefs \<and> now < endTime s"
  then show "\<exists>bodies' calcs.
         updatePhysics 0.5 (bodiesRef (rampLogic T random now s)) = Some (bodies', calcs) \<and>
         loop T random canvasRefs now s =
           Some ((rampLogic T random now s)
                  \<lparr>frameCount := frameCount (rampLogic T random now s) + 1,
                   bodiesRef := bodies',
                   totalCalcsRef := totalCalcsRef s + calcs,
                   framePending := True\<rparr>)"
    using loop_physics [of canvasRefs now s T random] by blast
qed

theorem loop_order_witness:
  "ctxReady readyCanvas \<and> endTime lastFrame \<le> 1000 \<and> 1000 \<le> fl (lastMetricTime lastFrame + 500) \<and>
   loop 1000 (\<lambda>k. 0) readyCanvas 1000 lastFrame = Some (finish lastFrame) \<and>
   totalCalcsRef (finish lastFrame) = 0 \<and>
   950 < endTime lastFrame \<and>
   (\<exists>bodies' calcs. updatePhysics 0.5 [restBody, restBody] = Some (bodies', calcs) \<and>
      loop 1000 (\<lambda>k. 0) readyCanvas 950 lastFrame =
        Some (lastFrame\<lparr>frameCount := 1, bodiesRef := bodies', totalCalcsRef := calcs,
                         framePending := True\<rparr>)) \<and>
   fl (lastMetricTime lastFrame + 500) < 1500 \<and>
   length (bodiesRef (rampLogic 1000 (\<lambda>k. 0) 1500 lastFrame)) = 102"
proof -
  have h: "ctxReady readyCanvas" "endTime lastFrame \<le> 1000" "950 < endTime lastFrame"
    "1000 \<le> fl (lastMetricTime lastFrame + 500)" "950 \<le> fl (lastMetricTime lastFrame + 500)"
    "fl (lastMetricTime lastFrame + 500) < 1500"
    by (simp_all add: ctxReady_readyCanvas lastFrame_def initialApp_def)
  note a = loop_order [of 1000 lastFrame 1000 "\<lambda>k. 0" readyCanvas]
  note b = loop_order [of 950 lastFrame 1000 "\<lambda>k. 0" readyCanvas]
  note c = loop_order [of 1500 lastFrame 1000 "\<lambda>k. 0" readyCanvas]
  from a h have r1: "rampLogic 1000 (\<lambda>k. 0) 1000 lastFrame = lastFrame" by (elim conjE) simp
  from b h have r2: "rampLogic 1000 (\<lambda>k. 0) 950 lastFrame = lastFrame" by (elim conjE) simp
  from a h have 1: "loop 1000 (\<lambda>k. 0) readyCanvas 1000 lastFrame = Some (finish lastFrame)"
    unfolding r1 by (elim conjE) simp
  from a h have 2: "totalCalcsRef (finish lastFrame) = 0"
    unfolding r1 by (elim conjE) (simp add: lastFrame_def initialApp_def)
  from b h have 3: "\<exists>bodies' calcs. updatePhysics 0.5 [restBody, restBody] = Some (bodies', calcs) \<and>
      loop 1000 (\<lambda>k. 0) readyCanvas 950 lastFrame =
        Some (lastFrame\<lparr>frameCount := 1, bodiesRef := bodies', totalCalcsRef := calcs,
                         framePending := True\<rparr>)"
    unfolding r2 by (elim conjE) (simp add: lastFrame_def initialApp_def)
  from c h have 4: "length (bodiesRef (rampLogic 1000 (\<lambda>k. 0) 1500 lastFrame)) = 102"
    by (elim conjE) (simp add: lastFrame_def initialApp_def rampAmount_def)
  from h 1 2 3 4 show ?thesis by blast
qed

text \<open>
  The order of the claim (integrate, then check termination) is not that of \<open>loop\<close>: on the
  last frame of a run with two bodies \<open>loop\<close> finishes with no evaluation counted and the
  bodies untouched, where the claimed order counts one.
\<close>

theorem loop_order_counterexample:
  "loop 1000 (\<lambda>k. 0) readyCanvas 1000 lastFrame = Some (finish lastFrame) \<and>
   totalCalcsRef (finish lastFrame) = 0 \<and>
   bodiesRef (finish lastFrame) = [restBody, restBody] \<and>
   loop 1000 (\<lambda>k. 0) readyCanvas 1000 lastFrame
     \<noteq> loopAsClaimed 1000 (\<lambda>k. 0) readyCanvas 1000 lastFrame"
proof -
  have e: "endTime lastFrame \<le> 1000" by (simp add: lastFrame_def initialApp_def)
  have l: "loop 1000 (\<lambda>k. 0) readyCanvas 1000 lastFrame = Some (finish lastFrame)"
    using e by (simp add: loop_finish ctxReady_readyCanvas rampLogic_lastFrame)
  have t: "totalCalcsRef (finish lastFrame) = 0" "bodiesRef (finish lastFrame) = [restBody, restBody]"
    by (simp_all add: finish_fields lastFrame_def initialApp_def)
  have len: "length (bodiesRef lastFrame) = 2" by (simp add: lastFrame_def initialApp_def)
  obtain bodies' where u: "updatePhysics 0.5 (bodiesRef lastFrame) = Some (bodies', 1)"
    using updatePhysics_calcs [of "0.5" "bodiesRef lastFrame"]
    unfolding len pairsVisited_two by blast
  have "loopAsClaimed 1000 (\<lambda>k. 0) readyCanvas 1000 lastFrame =
      Some (finish (lastFrame\<lparr>frameCount := frameCount lastFrame + 1, bodiesRef := bodies',
                            totalCalcsRef := totalCalcsRef lastFrame + 1\<rparr>))"
    using e u by (simp add: loopAsClaimed_def ctxReady_readyCanvas rampLogic_lastFrame Let_def)
  moreover have "totalCalcsRef (finish (lastFrame\<lparr>frameCount := frameCount lastFrame + 1,
       bodiesRef := bodies', totalCalcsRef := totalCalcsRef lastFrame + 1\<rparr>)) = 1"
    by (simp add: finish_fields lastFrame_def initialApp_def)
  ultimately have "loop 1000 (\<lambda>k. 0) readyCanvas 1000 lastFrame
     \<noteq> loopAsClaimed 1000 (\<lambda>k. 0) readyCanvas 1000 lastFrame"
    using l t(1) by auto
  with l t show ?thesis by simp
qed

text \<open>
  C5, as amended. For every pair of indices \<open>i < j\<close> that the integrator visits, the pass
  through the inner loop body computes one force \<open>f\<close> (gravity plus the stress term) and
  applies it to both bodies with opposite sign: the velocity of body \<open>i\<close> becomes
  \<open>vel + f / mass\<close> and that of body \<open>j\<close> becomes \<open>vel - f / mass\<close>, in every component, where
  each quotient and each sum is rounded to a double. Weighted by the masses the two
  velocity changes therefore cancel up to these four roundings, each of at most half a
  unit in the last place, and not exactly.
\<close>

theorem pairStep_antisymmetric:
  "i < j \<and> j < length bodies \<and> component c \<longrightarrow>
     pairStep i j bodies ! i = fst (interact (bodies ! i) (bodies ! j)) \<and>
     pairStep i j bodies ! j = snd (interact (bodies ! i) (bodies ! j)) \<and>
     c (pairForce (bodies ! i) (bodies ! j)) =
       fl (c (gravity (bodies ! i) (bodies ! j)) +
           fl (stress (bodies ! i) (bodies ! j) * fl 0.00001)) \<and>
     c (vel (pairStep i j bodies ! i)) =
       fl (c (vel (bodies ! i)) + fl (c (pairForce (bodies ! i) (bodies ! j)) / mass (bodies ! i))) \<and>
     c (vel (pairStep i j bodies ! j)) =
       fl (c (vel (bodies ! j)) - fl (c (pairForce (bodies ! i) (bodies ! j)) / mass (bodies ! j))) \<and>
     (mass (bodies ! i) \<noteq> 0 \<and> mass (bodies ! j) \<noteq> 0 \<longrightarrow>
        \<bar>mass (bodies ! i) * (c (vel (pairStep i j bodies ! i)) - c (vel (bodies ! i))) +
         mass (bodies ! j) * (c (vel (pairStep i j bodies ! j)) - c (vel (bodies ! j)))\<bar>
        \<le> \<bar>mass (bodies ! i)\<bar> *
             (ulp (c (pairForce (bodies ! i) (bodies ! j)) / mass (bodies ! i)) +
              ulp (c (vel (bodies ! i)) +
                   fl (c (pairForce (bodies ! i) (bodies ! j)) / mass (bodies ! i)))) / 2
          + \<bar>mass (bodies ! j)\<bar> *
             (ulp (c (pairForce (bodies ! i) (bodies ! j)) / mass (bodies ! j)) +
              ulp (c (vel (bodies ! j)) -
                   fl (c (pairForce (bodies ! i) (bodies ! j)) / mass (bodies ! j)))) / 2)"
  (is "?H \<longrightarrow> ?C")
proof
  assume a: ?H
  then have ij: "i < j" "j < length bodies" and c: "component c" by simp_all
  define f where "f = c (pairForce (bodies ! i) (bodies ! j))"
  define mA where "mA = mass (bodies ! i)"
  define mB where "mB = mass (bodies ! j)"
  define vA where "vA = c (vel (bodies ! i))"
  define vB where "vB = c (vel (bodies ! j))"
  have A: "pairStep i j bodies ! i = pushA (pairForce (bodies ! i) (bodies ! j)) (bodies ! i)"
    and B: "pairStep i j bodies ! j = pullB (pairForce (bodies ! i) (bodies ! j)) (bodies ! j)"
    using ij by (simp_all add: pairStep_nth)
  have 1: "pairStep i j bodies ! i = fst (interact (bodies ! i) (bodies ! j))"
    and 2: "pairStep i j bodies ! j = snd (interact (bodies ! i) (bodies ! j))"
    unfolding A B by (simp_all add: interact_def Let_def)
  have 3: "c (pairForce (bodies ! i) (bodies ! j)) =
       fl (c (gravity (bodies ! i) (bodies ! j)) +
           fl (stress (bodies ! i) (bodies ! j) * fl 0.00001))"
    using c by (auto simp: component_def pairForce_def)
  have 4: "c (vel (pairStep i j bodies ! i)) = fl (vA + fl (f / mA))"
    unfolding A f_def mA_def vA_def by (rule component_pushA [OF c])
  have 5: "c (vel (pairStep i j bodies ! j)) = fl (vB - fl (f / mB))"
    unfolding B f_def mB_def vB_def by (rule component_pullB [OF c])
  have 6: "\<bar>mA * (fl (vA + fl (f / mA)) - vA) + mB * (fl (vB - fl (f / mB)) - vB)\<bar>
        \<le> \<bar>mA\<bar> * (ulp (f / mA) + ulp (vA + fl (f / mA))) / 2
          + \<bar>mB\<bar> * (ulp (f / mB) + ulp (vB - fl (f / mB))) / 2"
    if m: "mA \<noteq> 0 \<and> mB \<noteq> 0"
  proof -
    define e1 where "e1 = fl (vA + fl (f / mA)) - (vA + fl (f / mA))"
    define e2 where "e2 = fl (f / mA) - f / mA"
    define e3 where "e3 = fl (vB - fl (f / mB)) - (vB - fl (f / mB))"
    define e4 where "e4 = fl (f / mB) - f / mB"
    have b1: "\<bar>e1\<bar> \<le> ulp (vA + fl (f / mA)) / 2" unfolding e1_def by (rule fl_error)
    have b2: "\<bar>e2\<bar> \<le> ulp (f / mA) / 2" unfolding e2_def by (rule fl_error)
    have b3: "\<bar>e3\<bar> \<le> ulp (vB - fl (f / mB)) / 2" unfolding e3_def by (rule fl_error)
    have b4: "\<bar>e4\<bar> \<le> ulp (f / mB) / 2" unfolding e4_def by (rule fl_error)
    have "mA * (fl (vA + fl (f / mA)) - vA) = mA * (e1 + e2) + f"
      using m by (simp add: e1_def e2_def algebra_simps)
    moreover have "mB * (fl (vB - fl (f / mB)) - vB) = mB * (e3 - e4) - f"
      using m by (simp add: e3_def e4_def algebra_simps)
    ultimately have "mA * (fl (vA + fl (f / mA)) - vA) + mB * (fl (vB - fl (f / mB)) - vB)
        = mA * (e1 + e2) + mB * (e3 - e4)"
      by simp
    then have "\<bar>mA * (fl (vA + fl (f / mA)) - vA) + mB * (fl (vB - fl (f / mB)) - vB)\<bar>
        \<le> \<bar>mA * (e1 + e2)\<bar> + \<bar>mB * (e3 - e4)\<bar>"
      by (simp only: abs_triangle_ineq)
    also have "\<bar>mA * (e1 + e2)\<bar> = \<bar>mA\<bar> * \<bar>e1 + e2\<bar>" by (rule abs_mult)
    also have "\<bar>mB * (e3 - e4)\<bar> = \<bar>mB\<bar> * \<bar>e3 - e4\<bar>" by (rule abs_mult)
    also have "\<bar>mA\<bar> * \<bar>e1 + e2\<bar> + \<bar>mB\<bar> * \<bar>e3 - e4\<bar>
        \<le> \<bar>mA\<bar> * ((ulp (f / mA) + ulp (vA + fl (f / mA))) / 2)
          + \<bar>mB\<bar> * ((ulp (f / mB) + ulp (vB - fl (f / mB))) / 2)"
    proof (intro add_mono mult_left_mono abs_ge_zero)
      show "\<bar>e1 + e2\<bar> \<le> (ulp (f / mA) + ulp (vA + fl (f / mA))) / 2"
        using b1 b2 by (simp add: add_divide_distrib)
      show "\<bar>e3 - e4\<bar> \<le> (ulp (f / mB) + ulp (vB - fl (f / mB))) / 2"
        using b3 b4 by (simp add: add_divide_distrib)
    qed
    finally show ?thesis by simp
  qed
  from 1 2 3 4 5 6 show ?C
    unfolding f_def mA_def mB_def vA_def vB_def by (intro conjI impI) simp_all
qed

theorem pairStep_antisymmetric_witness:
  "(0::nat) < 1 \<and> 1 < length [lightBody, heavyBody] \<and> component vec_y \<and>
   mass ([lightBody, heavyBody] ! 0) \<noteq> 0 \<and> mass ([lightBody, heavyBody] ! 1) \<noteq> 0 \<and>
   vec_y (pairForce lightBody heavyBody) = 8501287380350899 / 2 ^ 62 \<and>
   vec_y (vel (pairStep 0 1 [lightBody, heavyBody] ! 0)) = 5667524920233933 / 2 ^ 62 \<and>
   vec_y (vel (pairStep 0 1 [lightBody, heavyBody] ! 1)) = - (4722937433528277 / 2 ^ 62)"
proof -
  have h: "(0::nat) < 1 \<and> 1 < length [lightBody, heavyBody] \<and> component vec_y"
    by (simp add: component_def)
  have m: "mass ([lightBody, heavyBody] ! 0) \<noteq> 0 \<and> mass ([lightBody, heavyBody] ! 1) \<noteq> 0"
    by (simp add: mass_heavyBody) (simp add: lightBody_def)
  have n: "[lightBody, heavyBody] ! 0 = lightBody" "[lightBody, heavyBody] ! 1 = heavyBody"
    by simp_all
  note t = pairStep_antisymmetric [of 0 1 "[lightBody, heavyBody]" vec_y, rule_format, OF h]
  have f: "vec_y (pairForce lightBody heavyBody) = 8501287380350899 / 2 ^ 62"
    by (simp add: pairForce_light_heavy)
  from t have "vec_y (vel (pairStep 0 1 [lightBody, heavyBody] ! 0)) =
      fl (vec_y (vel lightBody) + fl (vec_y (pairForce lightBody heavyBody) / mass lightBody))"
    unfolding n by (elim conjE)
  also have "\<dots> = fl (0 + fl (8501287380350899 / 2 ^ 62 / (3 / 2)))"
    by (simp only: f) (simp add: lightBody_def)
  finally have a: "vec_y (vel (pairStep 0 1 [lightBody, heavyBody] ! 0))
      = 5667524920233933 / 2 ^ 62"
    by (simp only: pushed_light)
  from t have "vec_y (vel (pairStep 0 1 [lightBody, heavyBody] ! 1)) =
      fl (vec_y (vel heavyBody) - fl (vec_y (pairForce lightBody heavyBody) / mass heavyBody))"
    unfolding n by (elim conjE)
  also have "\<dots> = fl (0 - fl (8501287380350899 / 2 ^ 62 / (8106479329266893 / 2 ^ 52)))"
    by (simp only: f mass_heavyBody) (simp add: heavyBody_def)
  finally have b: "vec_y (vel (pairStep 0 1 [lightBody, heavyBody] ! 1))
      = - (4722937433528277 / 2 ^ 62)"
    by (simp only: pulled_heavy)
  from h m f a b show ?thesis by (intro conjI) simp_all
qed

text \<open>
  The cancellation of the claim is not exact. For two bodies at rest, 24 apart, of masses
  1.5 and 1.8, the velocity changes are \<open>5667524920233933 / 2 ^ 62\<close> and
  \<open>- 4722937433528277 / 2 ^ 62\<close>: weighted by the masses they do not sum to zero, neither
  as reals nor with the products and the sum taken on doubles.
\<close>

theorem pairStep_antisymmetric_counterexample:
  "mass lightBody * (vec_y (vel (pairStep 0 1 [lightBody, heavyBody] ! 0)) - vec_y (vel lightBody)) +
   mass heavyBody * (vec_y (vel (pairStep 0 1 [lightBody, heavyBody] ! 1)) - vec_y (vel heavyBody))
     = 3108652177927791 / 2 ^ 114 \<and>
   fl (fl (mass lightBody *
             fl (vec_y (vel (pairStep 0 1 [lightBody, heavyBody] ! 0)) - vec_y (vel lightBody))) +
       fl (mass heavyBody *
             fl (vec_y (vel (pairStep 0 1 [lightBody, heavyBody] ! 1)) - vec_y (vel heavyBody))))
     = 1 / 2 ^ 62"
proof -
  have v: "vec_y (vel lightBody) = 0" "vec_y (vel heavyBody) = 0" "mass lightBody = 3 / 2"
    by (simp_all add: lightBody_def heavyBody_def)
  have 1: "3 / 2 * (5667524920233933 / 2 ^ 62 - 0) +
      8106479329266893 / 2 ^ 52 * (- (4722937433528277 / 2 ^ 62) - 0)
      = (3108652177927791 / 2 ^ 114 :: real)"
    by simp
  have e1: "fl (5667524920233933 / 2 ^ 62 - 0) = 5667524920233933 / 2 ^ 62"
    by (subst fl_down [where k = 10]) (simp_all add: rne_def)
  have e2: "fl (- (4722937433528277 / 2 ^ 62) - 0) = - (4722937433528277 / 2 ^ 62)"
    by (subst fl_down [where k = 10]) (simp_all add: rne_def)
  have e3: "fl (3 / 2 * (5667524920233933 / 2 ^ 62)) = 2125321845087725 / 2 ^ 60"
    by (subst fl_down [where k = 10]) (simp_all add: rne_def)
  have e4: "fl (8106479329266893 / 2 ^ 52 * - (4722937433528277 / 2 ^ 62))
      = - (8501287380350899 / 2 ^ 62)"
    by (subst fl_down [where k = 10]) (simp_all add: rne_def)
  have e5: "fl (2125321845087725 / 2 ^ 60 + - (8501287380350899 / 2 ^ 62)) = 1 / 2 ^ 62"
    by (subst fl_down [where k = 62]) (simp_all add: rne_def)
  have 2: "fl (fl (3 / 2 * fl (5667524920233933 / 2 ^ 62 - 0)) +
            fl (8106479329266893 / 2 ^ 52 * fl (- (4722937433528277 / 2 ^ 62) - 0)))
      = 1 / 2 ^ 62"
    by (simp only: e1 e2 e3 e4 e5)
  from 1 2 show ?thesis
    unfolding pairStep_light_heavy mass_heavyBody v by (intro conjI)
qed

text \<open>
  C6. Over any sequence of frames the population at an earlier frame is at most the
  population at a later one, and every call of \<open>loop\<close> returns with a store at least as long
  as before. The ramp only appends spawned bodies to the store, and the integrator keeps
  its length. A start that passes its guards replaces the store by 2500 newly spawned
  bodies.
\<close>

theorem population_never_shrinks:
  "(\<exists>s1 s2. frames T random fs1 s = Some s1 \<and> frames T random (fs1 @ fs2) s = Some s2 \<and>
       length (bodiesRef s1) \<le> length (bodiesRef s2)) \<and>
   (\<exists>s'. loop T random canvasRefs now s = Some s' \<and>
       length (bodiesRef s) \<le> length (bodiesRef s')) \<and>
   (\<exists>spawned. bodiesRef (rampLogic T random now s) = bodiesRef s @ spawned) \<and>
   (\<exists>bodies' calcs. updatePhysics dt bodies = Some (bodies', calcs) \<and>
       length bodies' = length bodies) \<and>
   (\<not> isRunning s \<and> surfaceReady canvasRefs \<longrightarrow>
      bodiesRef (snd (startBenchmark T random canvasRefs now s)) =
        map (\<lambda>k. spawn random (randomCalls s + 6 * k)) [0..<2500])"
proof (intro conjI impI)
  obtain s1 where 1: "frames T random fs1 s = Some s1"
    using frames_total_mono [of T random fs1 s] by blast
  obtain s2 where 2: "frames T random fs2 s1 = Some s2"
    "length (bodiesRef s1) \<le> length (bodiesRef s2)"
    using frames_total_mono [of T random fs2 s1] by blast
  from 1 2 have "frames T random (fs1 @ fs2) s = Some s2" by (simp add: frames_append)
  with 1 2 show "\<exists>s1 s2. frames T random fs1 s = Some s1 \<and>
       frames T random (fs1 @ fs2) s = Some s2 \<and>
       length (bodiesRef s1) \<le> length (bodiesRef s2)" by blast
  show "\<exists>s'. loop T random canvasRefs now s = Some s' \<and>
       length (bodiesRef s) \<le> length (bodiesRef s')"
    by (rule loop_total_mono)
  show "\<exists>spawned. bodiesRef (rampLogic T random now s) = bodiesRef s @ spawned"
    by (rule rampLogic_appends)
  show "\<exists>bodies' calcs. updatePhysics dt bodies = Some (bodies', calcs) \<and>
       length bodies' = length bodies"
    using updatePhysics_frame [of dt bodies] by blast
next
  assume "\<not> isRunning s \<and> surfaceReady canvasRefs"
  then show "bodiesRef (snd (startBenchmark T random canvasRefs now s)) =
        map (\<lambda>k. spawn random (randomCalls s + 6 * k)) [0..<2500]"
    by (simp add: startBenchmark_def Let_def addParticles_eq)
qed

theorem population_never_shrinks_witness:
  "(\<exists>s1 s2. frames 1000 (\<lambda>k. 0) [(readyCanvas, 950)] lastFrame = Some s1 \<and>
       frames 1000 (\<lambda>k. 0) ([(readyCanvas, 950)] @ [(readyCanvas, 1500)]) lastFrame = Some s2 \<and>
       length (bodiesRef s1) \<le> length (bodiesRef s2)) \<and>
   \<not> isRunning (finish lastFrame) \<and> surfaceReady readyCanvas \<and>
   length (bodiesRef (snd (startBenchmark 1000 (\<lambda>k. 0) readyCanvas 2000 (finish lastFrame)))) = 2500"
proof -
  note t = population_never_shrinks [of 1000 "\<lambda>k. 0" "[(readyCanvas, 950)]" lastFrame
      "[(readyCanvas, 1500)]" readyCanvas 2000 "1/2" "[]"]
  note u = population_never_shrinks [of 1000 "\<lambda>k. 0" "[]" "finish lastFrame" "[]" readyCanvas
      2000 "1/2" "[]"]
  have h: "\<not> isRunning (finish lastFrame) \<and> surfaceReady readyCanvas"
    by (simp add: finish_fields surfaceReady_def readyCanvas_def)
  from t have 1: "\<exists>s1 s2. frames 1000 (\<lambda>k. 0) [(readyCanvas, 950)] lastFrame = Some s1 \<and>
       frames 1000 (\<lambda>k. 0) ([(readyCanvas, 950)] @ [(readyCanvas, 1500)]) lastFrame = Some s2 \<and>
       length (bodiesRef s1) \<le> length (bodiesRef s2)"
    by (rule conjunct1)
  from u h have "bodiesRef (snd (startBenchmark 1000 (\<lambda>k. 0) readyCanvas 2000 (finish lastFrame))) =
        map (\<lambda>k. spawn (\<lambda>k. 0) (randomCalls (finish lastFrame) + 6 * k)) [0..<2500]"
    by blast
  then have "length (bodiesRef (snd (startBenchmark 1000 (\<lambda>k. 0) readyCanvas 2000 (finish lastFrame))))
      = 2500"
    by simp
  with 1 h show ?thesis by blast
qed

text \<open>
  C7, as amended. The mean that \<open>finish\<close> computes and uses for the score is the mean of the
  fps values of all recorded samples taken on doubles: their sum from left to right,
  divided by their number, every operation rounded. It is the arithmetic mean where none
  of these operations rounds, and it is 0 for an empty history (the division is guarded).
  The state \<open>avgFps\<close> that \<open>finish\<close> stores is that mean rounded to the nearest integer with
  \<open>Math.round\<close>, so it is within one half of it, and 0 for an empty history.
\<close>

theorem avgFps_rounded_mean:
  "average (historyRef s) =
     (if historyRef s = [] then 0
      else fl (foldl (\<lambda>acc curr. fl (acc + fps curr)) 0 (historyRef s)
                 / real (length (historyRef s)))) \<and>
   ((\<forall>k\<le>length (historyRef s).
        fl (sum_list (map fps (take k (historyRef s)))) = sum_list (map fps (take k (historyRef s)))) \<and>
     fl (meanFps (historyRef s)) = meanFps (historyRef s) \<longrightarrow>
      average (historyRef s) = meanFps (historyRef s)) \<and>
   avgFps (finish s) = Math_round (average (historyRef s)) \<and>
   \<bar>real_of_int (avgFps (finish s)) - average (historyRef s)\<bar> \<le> 1/2 \<and>
   finalScore (finish s) =
     \<lfloor>fl (fl (real (totalCalcsRef s) / 100000) * fl (average (historyRef s) / 60))\<rfloor> \<and>
   (historyRef s = [] \<longrightarrow>
      average (historyRef s) = 0 \<and> avgFps (finish s) = 0 \<and> finalScore (finish s) = 0)"
proof (intro conjI impI)
  show "average (historyRef s) =
     (if historyRef s = [] then 0
      else fl (foldl (\<lambda>acc curr. fl (acc + fps curr)) 0 (historyRef s)
                 / real (length (historyRef s))))"
    by (simp add: average_def)
  show "avgFps (finish s) = Math_round (average (historyRef s))" by (simp add: finish_fields)
  show "\<bar>real_of_int (avgFps (finish s)) - average (historyRef s)\<bar> \<le> 1/2"
    unfolding finish_fields Math_round_def by linarith
  show "finalScore (finish s) =
     \<lfloor>fl (fl (real (totalCalcsRef s) / 100000) * fl (average (historyRef s) / 60))\<rfloor>"
    by (simp add: finish_fields)
next
  assume "(\<forall>k\<le>length (historyRef s).
        fl (sum_list (map fps (take k (historyRef s)))) = sum_list (map fps (take k (historyRef s)))) \<and>
     fl (meanFps (historyRef s)) = meanFps (historyRef s)"
  then show "average (historyRef s) = meanFps (historyRef s)"
    using average_exact [of "historyRef s"] by blast
next
  assume e: "historyRef s = []"
  then show "average (historyRef s) = 0" by (simp add: average_def)
  from e show "avgFps (finish s) = 0" by (simp add: finish_fields average_def Math_round_def)
  from e show "finalScore (finish s) = 0" by (simp add: finish_fields average_def)
qed

theorem avgFps_rounded_mean_witness:
  "historyRef initialApp = [] \<and> average (historyRef initialApp) = 0 \<and>
   avgFps (finish initialApp) = 0 \<and> finalScore (finish initialApp) = 0 \<and>
   length (historyRef scoreApp) = 1 \<and>
   fl (sum_list (map fps (take 0 (historyRef scoreApp))))
     = sum_list (map fps (take 0 (historyRef scoreApp))) \<and>
   fl (sum_list (map fps (take 1 (historyRef scoreApp))))
     = sum_list (map fps (take 1 (historyRef scoreApp))) \<and>
   fl (meanFps (historyRef scoreApp)) = meanFps (historyRef scoreApp) \<and>
   average (historyRef scoreApp) = 30 \<and> meanFps (historyRef scoreApp) = 30 \<and>
   avgFps (finish scoreApp) = 30 \<and>
   average (historyRef driftApp) = 4573968371548159 / 2 ^ 47 \<and>
   avgFps (finish driftApp) = 32"
proof -
  have h: "historyRef initialApp = []" by (simp add: initialApp_def)
  from avgFps_rounded_mean [of initialApp] h
  have 1: "average (historyRef initialApp) = 0 \<and> avgFps (finish initialApp) = 0 \<and>
      finalScore (finish initialApp) = 0"
    by blast
  have s: "historyRef scoreApp = [\<lparr>time = 1/2, fps = 30, particles = 2500\<rparr>]"
    by (simp add: scoreApp_def initialApp_def)
  have m: "meanFps (historyRef scoreApp) = 30" by (simp add: s meanFps_def)
  have k: "fl (sum_list (map fps (take k (historyRef scoreApp))))
        = sum_list (map fps (take k (historyRef scoreApp)))" for k
    by (cases k) (simp_all add: s)
  have l: "length (historyRef scoreApp) = 1" by (simp add: s)
  from k have e: "\<forall>k\<le>length (historyRef scoreApp).
      fl (sum_list (map fps (take k (historyRef scoreApp))))
        = sum_list (map fps (take k (historyRef scoreApp)))"
    by blast
  have r: "fl (meanFps (historyRef scoreApp)) = meanFps (historyRef scoreApp)"
    by (simp add: m)
  from avgFps_rounded_mean [of scoreApp] e r
  have a: "average (historyRef scoreApp) = meanFps (historyRef scoreApp)" by blast
  from avgFps_rounded_mean [of scoreApp]
  have "avgFps (finish scoreApp) = Math_round (average (historyRef scoreApp))" by blast
  then have 2: "avgFps (finish scoreApp) = 30" by (simp add: a m Math_round_def)
  from avgFps_rounded_mean [of driftApp]
  have "avgFps (finish driftApp) = Math_round (average (historyRef driftApp))" by blast
  then have 3: "avgFps (finish driftApp) = 32"
    by (simp add: average_driftApp Math_round_def)
  from h 1 l k [of 0] k [of 1] r a m 2 3 average_driftApp show ?thesis by simp
qed

text \<open>
  The stored \<open>avgFps\<close> is not the mean itself: a history with the single sample 62.5 fps
  gives \<open>avgFps = 63\<close>. And the mean that \<open>finish\<close> computes is not always the arithmetic
  mean of the samples: for the three samples of \<open>driftApp\<close> it is
  \<open>4573968371548159 / 2 ^ 47\<close>, below their arithmetic mean.
\<close>

theorem avgFps_is_mean_counterexample:
  "avgFps (finish roundApp) = 63 \<and> meanFps (historyRef roundApp) = 125/2 \<and>
   real_of_int (avgFps (finish roundApp)) \<noteq> meanFps (historyRef roundApp) \<and>
   average (historyRef driftApp) = 4573968371548159 / 2 ^ 47 \<and>
   meanFps (historyRef driftApp) = 54887620458577919 / (3 * 2 ^ 49) \<and>
   average (historyRef driftApp) < meanFps (historyRef driftApp)"
proof -
  have 1: "avgFps (finish roundApp) = 63"
    by (simp add: finish_fields average_roundApp Math_round_def)
  have 2: "meanFps (historyRef roundApp) = 125/2"
    by (simp add: meanFps_def roundApp_def initialApp_def)
  have 3: "(4573968371548159 / 2 ^ 47 :: real) < 54887620458577919 / (3 * 2 ^ 49)"
    by simp
  from 1 2 3 show ?thesis
    unfolding average_driftApp meanFps_driftApp by simp
qed

text \<open>
  C8, as amended. \<open>startBenchmark\<close> changes nothing when the machine is already running or
  when the render surface is not ready. When it is not running and the surface is not
  ready, the error "Canvas context not ready" is reported and the state is unchanged, so
  Idle stays Idle. When it is already running the call returns silently: no error is
  reported. In both cases the body store, the history and the accumulators are untouched.
  The surface is ready when the handle is attached and both its canvas and its context are
  there, which after the mount effect of the canvas component means that the browser gave
  a context; a start that passes both guards resets history and counter and seeds 2500
  bodies.
\<close>

theorem startBenchmark_guards:
  "(isRunning s \<longrightarrow> startBenchmark T random canvasRefs now s = ([], s)) \<and>
   (\<not> isRunning s \<and> \<not> surfaceReady canvasRefs \<longrightarrow>
      startBenchmark T random canvasRefs now s = ([''Canvas context not ready''], s)) \<and>
   (runState s = Idle \<and> \<not> surfaceReady canvasRefs \<longrightarrow>
      fst (startBenchmark T random canvasRefs now s) = [''Canvas context not ready''] \<and>
      runState (snd (startBenchmark T random canvasRefs now s)) = Idle) \<and>
   (\<not> isRunning s \<and> surfaceReady canvasRefs \<longrightarrow>
      fst (startBenchmark T random canvasRefs now s) = [] \<and>
      runState (snd (startBenchmark T random canvasRefs now s)) = Running \<and>
      length (bodiesRef (snd (startBenchmark T random canvasRefs now s))) = 2500 \<and>
      historyRef (snd (startBenchmark T random canvasRefs now s)) = [] \<and>
      totalCalcsRef (snd (startBenchmark T random canvasRefs now s)) = 0) \<and>
   \<not> surfaceReady None \<and>
   (surfaceReady (Some (useImperativeHandle c)) \<longleftrightarrow> canvasRef c \<noteq> None \<and> ctxRef c \<noteq> None) \<and>
   (canvasRef c = Some cv \<longrightarrow>
      (surfaceReady (Some (useImperativeHandle (snd (mountEffect getContext c)))) \<longleftrightarrow>
         getContext cv \<noteq> None))"
  by (simp add: startBenchmark_def runState_def Let_def addParticles_eq surfaceReady_def
      useImperativeHandle_def mountEffect_def split: if_splits)

theorem startBenchmark_guards_witness:
  "isRunning lastFrame \<and> startBenchmark 1000 (\<lambda>k. 0) readyCanvas 2000 lastFrame = ([], lastFrame) \<and>
   runState initialApp = Idle \<and> \<not> isRunning initialApp \<and> \<not> surfaceReady None \<and>
   startBenchmark 1000 (\<lambda>k. 0) None 2000 initialApp = ([''Canvas context not ready''], initialApp) \<and>
   runState (snd (startBenchmark 1000 (\<lambda>k. 0) None 2000 initialApp)) = Idle \<and>
   surfaceReady readyCanvas \<and>
   runState (snd (startBenchmark 1000 (\<lambda>k. 0) readyCanvas 2000 initialApp)) = Running \<and>
   length (bodiesRef (snd (startBenchmark 1000 (\<lambda>k. 0) readyCanvas 2000 initialApp))) = 2500 \<and>
   canvasRef \<lparr>canvasRef = Some \<lparr>width = 800, height = 600\<rparr>, ctxRef = None\<rparr>
     = Some \<lparr>width = 800, height = 600\<rparr> \<and>
   \<not> surfaceReady (Some (useImperativeHandle (snd (mountEffect (\<lambda>cv. None)
       \<lparr>canvasRef = Some \<lparr>width = 800, height = 600\<rparr>, ctxRef = None\<rparr>))))"
proof -
  have h: "isRunning lastFrame" "runState initialApp = Idle" "\<not> isRunning initialApp"
    "\<not> surfaceReady None" "surfaceReady readyCanvas"
    "canvasRef \<lparr>canvasRef = Some \<lparr>width = 800, height = 600\<rparr>, ctxRef = None\<rparr>
       = Some \<lparr>width = 800, height = 600\<rparr>"
    by (simp_all add: lastFrame_def initialApp_def runState_def surfaceReady_def readyCanvas_def)
  note a = startBenchmark_guards [of lastFrame 1000 "\<lambda>k. 0" readyCanvas 2000
      "\<lparr>canvasRef = Some \<lparr>width = 800, height = 600\<rparr>, ctxRef = None\<rparr>"
      "\<lparr>width = 800, height = 600\<rparr>" "\<lambda>cv. None"]
  note b = startBenchmark_guards [of initialApp 1000 "\<lambda>k. 0" None 2000
      "\<lparr>canvasRef = Some \<lparr>width = 800, height = 600\<rparr>, ctxRef = None\<rparr>"
      "\<lparr>width = 800, height = 600\<rparr>" "\<lambda>cv. None"]
  note c = startBenchmark_guards [of initialApp 1000 "\<lambda>k. 0" readyCanvas 2000
      "\<lparr>canvasRef = Some \<lparr>width = 800, height = 600\<rparr>, ctxRef = None\<rparr>"
      "\<lparr>width = 800, height = 600\<rparr>" "\<lambda>cv. None"]
  from a h have 1: "startBenchmark 1000 (\<lambda>k. 0) readyCanvas 2000 lastFrame = ([], lastFrame)"
    by (elim conjE) simp
  from b h have 2: "startBenchmark 1000 (\<lambda>k. 0) None 2000 initialApp
      = ([''Canvas context not ready''], initialApp)"
    by (elim conjE) simp
  from b h have 3: "runState (snd (startBenchmark 1000 (\<lambda>k. 0) None 2000 initialApp)) = Idle"
    by (elim conjE) simp
  from c h have 4: "runState (snd (startBenchmark 1000 (\<lambda>k. 0) readyCanvas 2000 initialApp)) = Running"
    "length (bodiesRef (snd (startBenchmark 1000 (\<lambda>k. 0) readyCanvas 2000 initialApp))) = 2500"
    by (elim conjE, simp, elim conjE, simp)
  from a h have 5: "\<not> surfaceReady (Some (useImperativeHandle (snd (mountEffect (\<lambda>cv. None)
       \<lparr>canvasRef = Some \<lparr>width = 800, height = 600\<rparr>, ctxRef = None\<rparr>))))"
    by (elim conjE) simp
  from h 1 2 3 4 5 show ?thesis by blast
qed

text \<open>
  A start while running reports nothing, even with no render surface attached.
\<close>

theorem startBenchmark_running_counterexample:
  "isRunning lastFrame \<and> \<not> surfaceReady None \<and>
   startBenchmark 1000 (\<lambda>k. 0) None 2000 lastFrame = ([], lastFrame)"
  by (simp add: startBenchmark_def surfaceReady_def lastFrame_def initialApp_def)

text \<open>
  C9. One call of the integrator returns a store of the same length, and every body in it
  has the mass and the size it had before. Every body ends as the body it was with its
  accumulated velocity \<open>w\<close> (the old velocity, the center attraction once, and one
  contribution of every visited pair it belongs to, in the order of the loops), integrated
  once and passed through the soft bounds once: its position is the old position plus
  \<open>w * dt\<close>, and its velocity is \<open>w\<close>, reflected on the axes where the new position is beyond
  the bound. Each operation rounds to a double.
\<close>

theorem updatePhysics_frame_effect:
  "\<exists>bodies' calcs. updatePhysics dt bodies = Some (bodies', calcs) \<and>
      length bodies' = length bodies \<and>
      (\<forall>k<length bodies.
         mass (bodies' ! k) = mass (bodies ! k) \<and>
         size3D (bodies' ! k) = size3D (bodies ! k) \<and>
         bodies' ! k =
           softBounds (integrate dt ((bodies ! k)\<lparr>vel := accumulatedVel bodies k\<rparr>)) \<and>
         vec_x (pos (bodies' ! k)) =
           fl (vec_x (pos (bodies ! k)) + fl (vec_x (accumulatedVel bodies k) * dt)) \<and>
         vec_y (pos (bodies' ! k)) =
           fl (vec_y (pos (bodies ! k)) + fl (vec_y (accumulatedVel bodies k) * dt)) \<and>
         vec_z (pos (bodies' ! k)) =
           fl (vec_z (pos (bodies ! k)) + fl (vec_z (accumulatedVel bodies k) * dt)) \<and>
         vec_x (vel (bodies' ! k)) =
           bounce (vec_x (pos (bodies' ! k))) (vec_x (accumulatedVel bodies k)) \<and>
         vec_y (vel (bodies' ! k)) =
           bounce (vec_y (pos (bodies' ! k))) (vec_y (accumulatedVel bodies k)) \<and>
         vec_z (vel (bodies' ! k)) =
           bounce (vec_z (pos (bodies' ! k))) (vec_z (accumulatedVel bodies k)))"
proof -
  obtain bodies' calcs where r: "updatePhysics dt bodies = Some (bodies', calcs)"
    and e: "\<forall>k<length bodies.
         bodies' ! k = softBounds (integrate dt ((bodies ! k)\<lparr>vel := accumulatedVel bodies k\<rparr>))"
    using updatePhysics_exact [of dt bodies] by (elim exE conjE) (rule that)
  have l: "length bodies' = length bodies" using r by (rule updatePhysics_length)
  have "mass (bodies' ! k) = mass (bodies ! k) \<and>
         size3D (bodies' ! k) = size3D (bodies ! k) \<and>
         bodies' ! k =
           softBounds (integrate dt ((bodies ! k)\<lparr>vel := accumulatedVel bodies k\<rparr>)) \<and>
         vec_x (pos (bodies' ! k)) =
           fl (vec_x (pos (bodies ! k)) + fl (vec_x (accumulatedVel bodies k) * dt)) \<and>
         vec_y (pos (bodies' ! k)) =
           fl (vec_y (pos (bodies ! k)) + fl (vec_y (accumulatedVel bodies k) * dt)) \<and>
         vec_z (pos (bodies' ! k)) =
           fl (vec_z (pos (bodies ! k)) + fl (vec_z (accumulatedVel bodies k) * dt)) \<and>
         vec_x (vel (bodies' ! k)) =
           bounce (vec_x (pos (bodies' ! k))) (vec_x (accumulatedVel bodies k)) \<and>
         vec_y (vel (bodies' ! k)) =
           bounce (vec_y (pos (bodies' ! k))) (vec_y (accumulatedVel bodies k)) \<and>
         vec_z (vel (bodies' ! k)) =
           bounce (vec_z (pos (bodies' ! k))) (vec_z (accumulatedVel bodies k))"
    if "k < length bodies" for k
  proof -
    from e that
    have w: "bodies' ! k =
        softBounds (integrate dt ((bodies ! k)\<lparr>vel := accumulatedVel bodies k\<rparr>))"
      by simp
    show ?thesis
      unfolding w by (intro conjI) (simp_all add: softBounds_def integrate_def)
  qed
  then have "\<forall>k<length bodies.
         mass (bodies' ! k) = mass (bodies ! k) \<and>
         size3D (bodies' ! k) = size3D (bodies ! k) \<and>
         bodies' ! k =
           softBounds (integrate dt ((bodies ! k)\<lparr>vel := accumulatedVel bodies k\<rparr>)) \<and>
         vec_x (pos (bodies' ! k)) =
           fl (vec_x (pos (bodies ! k)) + fl (vec_x (accumulatedVel bodies k) * dt)) \<and>
         vec_y (pos (bodies' ! k)) =
           fl (vec_y (pos (bodies ! k)) + fl (vec_y (accumulatedVel bodies k) * dt)) \<and>
         vec_z (pos (bodies' ! k)) =
           fl (vec_z (pos (bodies ! k)) + fl (vec_z (accumulatedVel bodies k) * dt)) \<and>
         vec_x (vel (bodies' ! k)) =
           bounce (vec_x (pos (bodies' ! k))) (vec_x (accumulatedVel bodies k)) \<and>
         vec_y (vel (bodies' ! k)) =
           bounce (vec_y (pos (bodies' ! k))) (vec_y (accumulatedVel bodies k)) \<and>
         vec_z (vel (bodies' ! k)) =
           bounce (vec_z (pos (bodies' ! k))) (vec_z (accumulatedVel bodies k))"
    by (intro allI impI)
  with r l show ?thesis by (intro exI conjI)
qed

theorem updatePhysics_frame_effect_witness:
  "updatePhysics (1/2) [restBody, restBody] = Some ([restBody, restBody], 1) \<and>
   (0::nat) < length [restBody, restBody] \<and>
   [restBody, restBody] ! 0 =
     softBounds (integrate (1/2) (restBody\<lparr>vel := accumulatedVel [restBody, restBody] 0\<rparr>)) \<and>
   accumulatedVel [restBody, restBody] 0 = \<lparr>vec_x = 0, vec_y = 0, vec_z = 0\<rparr> \<and>
   (0::nat) < length [lightBody, heavyBody] \<and> (1::nat) < length [lightBody, heavyBody] \<and>
   accumulatedVel [lightBody, heavyBody] 0 =
     \<lparr>vec_x = 0, vec_y = 5667524920233933 / 2 ^ 62, vec_z = 0\<rparr> \<and>
   accumulatedVel [lightBody, heavyBody] 1 =
     \<lparr>vec_x = 0, vec_y = - (2914871038975425 / 2 ^ 61), vec_z = 0\<rparr> \<and>
   updatePhysics (1/2) [lightBody, heavyBody] =
     Some ([\<lparr>pos = \<lparr>vec_x = 0, vec_y = 5667524920233933 / 2 ^ 63, vec_z = 0\<rparr>,
             vel = \<lparr>vec_x = 0, vec_y = 5667524920233933 / 2 ^ 62, vec_z = 0\<rparr>,
             mass = 3 / 2, size3D = 2\<rparr>,
            \<lparr>pos = \<lparr>vec_x = 0, vec_y = 211100672857701 / 2 ^ 43, vec_z = 0\<rparr>,
             vel = \<lparr>vec_x = 0, vec_y = - (2914871038975425 / 2 ^ 61), vec_z = 0\<rparr>,
             mass = 8106479329266893 / 2 ^ 52, size3D = 2\<rparr>], 1)"
proof -
  have h: "(0::nat) < length [restBody, restBody]" by simp
  from updatePhysics_frame_effect [of "1/2" "[restBody, restBody]"]
  obtain bodies' calcs where r: "updatePhysics (1/2) [restBody, restBody] = Some (bodies', calcs)"
    and e: "bodies' ! 0 =
           softBounds (integrate (1/2)
             (([restBody, restBody] ! 0)\<lparr>vel := accumulatedVel [restBody, restBody] 0\<rparr>))"
  proof (elim exE conjE)
    fix bodies' calcs
    assume a: "updatePhysics (1/2) [restBody, restBody] = Some (bodies', calcs)" 
      and b: "\<forall>k<length [restBody, restBody].
         mass (bodies' ! k) = mass ([restBody, restBody] ! k) \<and>
         size3D (bodies' ! k) = size3D ([restBody, restBody] ! k) \<and>
         bodies' ! k =
           softBounds (integrate (1/2) (([restBody, restBody] ! k)\<lparr>vel := accumulatedVel [restBody, restBody] k\<rparr>)) \<and>
         vec_x (pos (bodies' ! k)) =
           fl (vec_x (pos ([restBody, restBody] ! k)) + fl (vec_x (accumulatedVel [restBody, restBody] k) * (1/2))) \<and>
         vec_y (pos (bodies' ! k)) =
           fl (vec_y (pos ([restBody, restBody] ! k)) + fl (vec_y (accumulatedVel [restBody, restBody] k) * (1/2))) \<and>
         vec_z (pos (bodies' ! k)) =
           fl (vec_z (pos ([restBody, restBody] ! k)) + fl (vec_z (accumulatedVel [restBody, restBody] k) * (1/2))) \<and>
         vec_x (vel (bodies' ! k)) =
           bounce (vec_x (pos (bodies' ! k))) (vec_x (accumulatedVel [restBody, restBody] k)) \<and>
         vec_y (vel (bodies' ! k)) =
           bounce (vec_y (pos (bodies' ! k))) (vec_y (accumulatedVel [restBody, restBody] k)) \<and>
         vec_z (vel (bodies' ! k)) =
           bounce (vec_z (pos (bodies' ! k))) (vec_z (accumulatedVel [restBody, restBody] k))"
    from b [rule_format, of 0, OF h] have "bodies' ! 0 =
           softBounds (integrate (1/2)
             (([restBody, restBody] ! 0)\<lparr>vel := accumulatedVel [restBody, restBody] 0\<rparr>))"
      by (elim conjE)
    with a show thesis by (rule that)
  qed
  from r have b: "bodies' = [restBody, restBody]" by (simp add: updatePhysics_rest)
  from e have 1: "[restBody, restBody] ! 0 =
     softBounds (integrate (1/2) (restBody\<lparr>vel := accumulatedVel [restBody, restBody] 0\<rparr>))"
    unfolding b by simp
  have g: "(0::nat) < length [lightBody, heavyBody]" "(1::nat) < length [lightBody, heavyBody]"
    by simp_all
  from updatePhysics_frame_effect [of "1/2" "[lightBody, heavyBody]"]
  obtain moved counted
    where m: "updatePhysics (1/2) [lightBody, heavyBody] = Some (moved, counted)"
    and ml: "length moved = length [lightBody, heavyBody]"
    and m0: "moved ! 0 =
           softBounds (integrate (1/2)
             (([lightBody, heavyBody] ! 0)\<lparr>vel := accumulatedVel [lightBody, heavyBody] 0\<rparr>))"
    and m1: "moved ! 1 =
           softBounds (integrate (1/2)
             (([lightBody, heavyBody] ! 1)\<lparr>vel := accumulatedVel [lightBody, heavyBody] 1\<rparr>))"
  proof (elim exE conjE)
    fix bodies' calcs
    assume a: "updatePhysics (1/2) [lightBody, heavyBody] = Some (bodies', calcs)"
      and l: "length bodies' = length [lightBody, heavyBody]"
      and b: "\<forall>k<length [lightBody, heavyBody].
         mass (bodies' ! k) = mass ([lightBody, heavyBody] ! k) \<and>
         size3D (bodies' ! k) = size3D ([lightBody, heavyBody] ! k) \<and>
         bodies' ! k =
           softBounds (integrate (1/2) (([lightBody, heavyBody] ! k)\<lparr>vel := accumulatedVel [lightBody, heavyBody] k\<rparr>)) \<and>
         vec_x (pos (bodies' ! k)) =
           fl (vec_x (pos ([lightBody, heavyBody] ! k)) + fl (vec_x (accumulatedVel [lightBody, heavyBody] k) * (1/2))) \<and>
         vec_y (pos (bodies' ! k)) =
           fl (vec_y (pos ([lightBody, heavyBody] ! k)) + fl (vec_y (accumulatedVel [lightBody, heavyBody] k) * (1/2))) \<and>
         vec_z (pos (bodies' ! k)) =
           fl (vec_z (pos ([lightBody, heavyBody] ! k)) + fl (vec_z (accumulatedVel [lightBody, heavyBody] k) * (1/2))) \<and>
         vec_x (vel (bodies' ! k)) =
           bounce (vec_x (pos (bodies' ! k))) (vec_x (accumulatedVel [lightBody, heavyBody] k)) \<and>
         vec_y (vel (bodies' ! k)) =
           bounce (vec_y (pos (bodies' ! k))) (vec_y (accumulatedVel [lightBody, heavyBody] k)) \<and>
         vec_z (vel (bodies' ! k)) =
           bounce (vec_z (pos (bodies' ! k))) (vec_z (accumulatedVel [lightBody, heavyBody] k))"
    from b [rule_format, of 0, OF g(1)] have 0: "bodies' ! 0 =
           softBounds (integrate (1/2)
             (([lightBody, heavyBody] ! 0)\<lparr>vel := accumulatedVel [lightBody, heavyBody] 0\<rparr>))"
      by (elim conjE)
    from b [rule_format, of 1, OF g(2)] have 1: "bodies' ! 1 =
           softBounds (integrate (1/2)
             (([lightBody, heavyBody] ! 1)\<lparr>vel := accumulatedVel [lightBody, heavyBody] 1\<rparr>))"
      by (elim conjE)
    from a l 0 1 show thesis by (rule that)
  qed
  have n: "[lightBody, heavyBody] ! 0 = lightBody" "[lightBody, heavyBody] ! 1 = heavyBody"
    by simp_all
  have "length moved = 2" using ml by simp
  then have "moved = [moved ! 0, moved ! 1]" by (rule list_of_two)
  then have 2: "moved =
      [\<lparr>pos = \<lparr>vec_x = 0, vec_y = 5667524920233933 / 2 ^ 63, vec_z = 0\<rparr>,
        vel = \<lparr>vec_x = 0, vec_y = 5667524920233933 / 2 ^ 62, vec_z = 0\<rparr>,
        mass = 3 / 2, size3D = 2\<rparr>,
       \<lparr>pos = \<lparr>vec_x = 0, vec_y = 211100672857701 / 2 ^ 43, vec_z = 0\<rparr>,
        vel = \<lparr>vec_x = 0, vec_y = - (2914871038975425 / 2 ^ 61), vec_z = 0\<rparr>,
        mass = 8106479329266893 / 2 ^ 52, size3D = 2\<rparr>]"
    unfolding m0 m1 n accumulatedVel_light_heavy settled_light settled_heavy .
  have l2: "length [lightBody, heavyBody] = 2" by simp
  from updatePhysics_calcs [of "1/2" "[lightBody, heavyBody]"]
  obtain bodies'' where "updatePhysics (1/2) [lightBody, heavyBody] = Some (bodies'', 1)"
    unfolding l2 pairsVisited_two ..
  with m have 3: "counted = 1" by simp
  from m have 4: "updatePhysics (1/2) [lightBody, heavyBody] =
     Some ([\<lparr>pos = \<lparr>vec_x = 0, vec_y = 5667524920233933 / 2 ^ 63, vec_z = 0\<rparr>,
             vel = \<lparr>vec_x = 0, vec_y = 5667524920233933 / 2 ^ 62, vec_z = 0\<rparr>,
             mass = 3 / 2, size3D = 2\<rparr>,
            \<lparr>pos = \<lparr>vec_x = 0, vec_y = 211100672857701 / 2 ^ 43, vec_z = 0\<rparr>,
             vel = \<lparr>vec_x = 0, vec_y = - (2914871038975425 / 2 ^ 61), vec_z = 0\<rparr>,
             mass = 8106479329266893 / 2 ^ 52, size3D = 2\<rparr>], 1)"
    unfolding 2 3 .
  from updatePhysics_rest h 1 accumulatedVel_rest g accumulatedVel_light_heavy 4
  show ?thesis by (intro conjI)
qed

text \<open>
  C10. The stride is at least 1 for every store size, and it is \<open>ceil (n / 4000)\<close>, at least
  3, above 8000 bodies; so the index of the inner loop strictly advances, and the inner
  loop and the integrator return on every store (with a stride of zero the inner loop
  would not). On the empty store and on a store of one body no pair is evaluated and the
  count is 0. The one body keeps its mass and its size and still gets, on every axis, the
  center attraction (its velocity \<open>v\<close> becomes \<open>v - p * 0.00001\<close> for its position \<open>p\<close>), the
  integration (its position becomes \<open>p\<close> plus the new velocity times \<open>dt\<close>) and the soft
  bounds (where the new position is beyond 4000 on either side, the new velocity is
  multiplied by \<open>- 0.8\<close>), each operation rounded to a double.
\<close>

theorem updatePhysics_returns:
  "1 \<le> stride_of n \<and>
   (8000 < n \<longrightarrow> stride_of n = nat \<lceil>real n / 4000\<rceil> \<and> 3 \<le> stride_of n) \<and>
   j < j + stride_of n \<and>
   (j < n \<longrightarrow> innerLoop 0 n i j bodies calcs = None) \<and>
   (\<exists>r. innerLoop (stride_of n) n i j bodies calcs = Some r) \<and>
   (\<exists>bodies' calcs'. updatePhysics dt bodies = Some (bodies', calcs')) \<and>
   updatePhysics dt [] = Some ([], 0) \<and>
   updatePhysics dt [bodyA] = Some ([softBounds (integrate dt (centerAttraction bodyA))], 0) \<and>
   (\<exists>bodyA'. updatePhysics dt [bodyA] = Some ([bodyA'], 0) \<and>
      mass bodyA' = mass bodyA \<and> size3D bodyA' = size3D bodyA \<and>
      vec_x (pos bodyA') =
        fl (vec_x (pos bodyA)
            + fl (fl (vec_x (vel bodyA) - fl (vec_x (pos bodyA) * fl 0.00001)) * dt)) \<and>
      vec_y (pos bodyA') =
        fl (vec_y (pos bodyA)
            + fl (fl (vec_y (vel bodyA) - fl (vec_y (pos bodyA) * fl 0.00001)) * dt)) \<and>
      vec_z (pos bodyA') =
        fl (vec_z (pos bodyA)
            + fl (fl (vec_z (vel bodyA) - fl (vec_z (pos bodyA) * fl 0.00001)) * dt)) \<and>
      vec_x (vel bodyA') =
        (if \<bar>vec_x (pos bodyA')\<bar> > 4000
         then fl (fl (vec_x (vel bodyA) - fl (vec_x (pos bodyA) * fl 0.00001)) * (- fl 0.8))
         else fl (vec_x (vel bodyA) - fl (vec_x (pos bodyA) * fl 0.00001))) \<and>
      vec_y (vel bodyA') =
        (if \<bar>vec_y (pos bodyA')\<bar> > 4000
         then fl (fl (vec_y (vel bodyA) - fl (vec_y (pos bodyA) * fl 0.00001)) * (- fl 0.8))
         else fl (vec_y (vel bodyA) - fl (vec_y (pos bodyA) * fl 0.00001))) \<and>
      vec_z (vel bodyA') =
        (if \<bar>vec_z (pos bodyA')\<bar> > 4000
         then fl (fl (vec_z (vel bodyA) - fl (vec_z (pos bodyA) * fl 0.00001)) * (- fl 0.8))
         else fl (vec_z (vel bodyA) - fl (vec_z (pos bodyA) * fl 0.00001))))"
proof (intro conjI impI)
  show "1 \<le> stride_of n" "j < j + stride_of n"
    using stride_of_pos [of n] by simp_all
  show "\<exists>r. innerLoop (stride_of n) n i j bodies calcs = Some r"
    using innerLoop_calcs [OF stride_of_pos] by blast
  show "innerLoop 0 n i j bodies calcs = None" if "j < n"
    using that by (rule innerLoop_zero_stride)
  show "\<exists>bodies' calcs'. updatePhysics dt bodies = Some (bodies', calcs')"
    using updatePhysics_calcs by blast
  show "updatePhysics dt [] = Some ([], 0)"
    by (simp add: updatePhysics_def outerLoop.simps)
  have "innerLoop 1 1 0 1 [centerAttraction bodyA] 0 = Some ([centerAttraction bodyA], 0)"
    by (subst innerLoop.simps) simp
  moreover have "outerLoop dt 1 1 1 [softBounds (integrate dt (centerAttraction bodyA))] 0 =
      Some ([softBounds (integrate dt (centerAttraction bodyA))], 0)"
    by (subst outerLoop.simps) simp
  ultimately have "outerLoop dt 1 1 0 [bodyA] 0 =
      Some ([softBounds (integrate dt (centerAttraction bodyA))], 0)"
    by (subst outerLoop.simps) simp
  then show one: "updatePhysics dt [bodyA] =
      Some ([softBounds (integrate dt (centerAttraction bodyA))], 0)"
    by (simp add: updatePhysics_def stride_of_def)
  show "\<exists>bodyA'. updatePhysics dt [bodyA] = Some ([bodyA'], 0) \<and>
      mass bodyA' = mass bodyA \<and> size3D bodyA' = size3D bodyA \<and>
      vec_x (pos bodyA') =
        fl (vec_x (pos bodyA)
            + fl (fl (vec_x (vel bodyA) - fl (vec_x (pos bodyA) * fl 0.00001)) * dt)) \<and>
      vec_y (pos bodyA') =
        fl (vec_y (pos bodyA)
            + fl (fl (vec_y (vel bodyA) - fl (vec_y (pos bodyA) * fl 0.00001)) * dt)) \<and>
      vec_z (pos bodyA') =
        fl (vec_z (pos bodyA)
            + fl (fl (vec_z (vel bodyA) - fl (vec_z (pos bodyA) * fl 0.00001)) * dt)) \<and>
      vec_x (vel bodyA') =
        (if \<bar>vec_x (pos bodyA')\<bar> > 4000
         then fl (fl (vec_x (vel bodyA) - fl (vec_x (pos bodyA) * fl 0.00001)) * (- fl 0.8))
         else fl (vec_x (vel bodyA) - fl (vec_x (pos bodyA) * fl 0.00001))) \<and>
      vec_y (vel bodyA') =
        (if \<bar>vec_y (pos bodyA')\<bar> > 4000
         then fl (fl (vec_y (vel bodyA) - fl (vec_y (pos bodyA) * fl 0.00001)) * (- fl 0.8))
         else fl (vec_y (vel bodyA) - fl (vec_y (pos bodyA) * fl 0.00001))) \<and>
      vec_z (vel bodyA') =
        (if \<bar>vec_z (pos bodyA')\<bar> > 4000
         then fl (fl (vec_z (vel bodyA) - fl (vec_z (pos bodyA) * fl 0.00001)) * (- fl 0.8))
         else fl (vec_z (vel bodyA) - fl (vec_z (pos bodyA) * fl 0.00001)))"
    by (rule exI [of _ "softBounds (integrate dt (centerAttraction bodyA))"], intro conjI)
      (simp_all add: one softBounds_def integrate_def centerAttraction_def bounce_def
        centerPull_def)
next
  assume "8000 < n"
  then show "stride_of n = nat \<lceil>real n / 4000\<rceil>" "3 \<le> stride_of n"
    using stride_of_large [of n] by (simp_all add: stride_of_def)
qed

theorem updatePhysics_returns_witness:
  "(8000::nat) < 8001 \<and> stride_of 8001 = 3 \<and>
   (0::nat) < 8001 \<and> innerLoop 0 8001 0 0 [] 0 = None \<and>
   updatePhysics (1/2) [restBody] = Some ([restBody], 0) \<and>
   updatePhysics (1/2) [edgeBody] =
     Some ([\<lparr>pos = \<lparr>vec_x = 4512373202394567 / 2 ^ 40, vec_y = 0, vec_z = 0\<rparr>,
            vel = \<lparr>vec_x = - (1796828164929771 / 2 ^ 47), vec_y = 0, vec_z = 0\<rparr>,
            mass = 1, size3D = 2\<rparr>], 0)"
proof -
  have "stride_of 8001 = nat \<lceil>real 8001 / 4000\<rceil> \<and> 3 \<le> stride_of 8001"
    using updatePhysics_returns [of 8001] by simp
  moreover have "nat \<lceil>real 8001 / 4000\<rceil> = 3" by simp
  ultimately have 1: "stride_of 8001 = 3" by simp
  have 2: "innerLoop 0 8001 0 0 [] 0 = None"
    using updatePhysics_returns [of 8001 0 0 "[]" 0] by simp
  have "softBounds (integrate (1/2) (centerAttraction restBody)) = restBody"
    by (simp add: softBounds_def integrate_def centerAttraction_def restBody_def bounce_def)
  then have 3: "updatePhysics (1/2) [restBody] = Some ([restBody], 0)"
    using updatePhysics_returns [of _ _ _ _ _ "1/2" restBody] by simp
  from updatePhysics_returns [of 0 0 0 "[]" 0 "1/2" edgeBody]
  obtain b where r: "updatePhysics (1/2) [edgeBody] = Some ([b], 0)"
    and m: "mass b = mass edgeBody" "size3D b = size3D edgeBody"
    and px: "vec_x (pos b) =
        fl (vec_x (pos edgeBody)
            + fl (fl (vec_x (vel edgeBody) - fl (vec_x (pos edgeBody) * fl 0.00001)) * (1/2)))"
    and py: "vec_y (pos b) =
        fl (vec_y (pos edgeBody)
            + fl (fl (vec_y (vel edgeBody) - fl (vec_y (pos edgeBody) * fl 0.00001)) * (1/2)))"
    and pz: "vec_z (pos b) =
        fl (vec_z (pos edgeBody)
            + fl (fl (vec_z (vel edgeBody) - fl (vec_z (pos edgeBody) * fl 0.00001)) * (1/2)))"
    and vx: "vec_x (vel b) =
        (if \<bar>vec_x (pos b)\<bar> > 4000
         then fl (fl (vec_x (vel edgeBody) - fl (vec_x (pos edgeBody) * fl 0.00001)) * (- fl 0.8))
         else fl (vec_x (vel edgeBody) - fl (vec_x (pos edgeBody) * fl 0.00001)))"
    and vy: "vec_y (vel b) =
        (if \<bar>vec_y (pos b)\<bar> > 4000
         then fl (fl (vec_y (vel edgeBody) - fl (vec_y (pos edgeBody) * fl 0.00001)) * (- fl 0.8))
         else fl (vec_y (vel edgeBody) - fl (vec_y (pos edgeBody) * fl 0.00001)))"
    and vz: "vec_z (vel b) =
        (if \<bar>vec_z (pos b)\<bar> > 4000
         then fl (fl (vec_z (vel edgeBody) - fl (vec_z (pos edgeBody) * fl 0.00001)) * (- fl 0.8))
         else fl (vec_z (vel edgeBody) - fl (vec_z (pos edgeBody) * fl 0.00001)))"
    by (elim conjE exE) (rule that)
  have e: "vec_x (pos edgeBody) = 4096" "vec_y (pos edgeBody) = 0" "vec_z (pos edgeBody) = 0"
    "vec_x (vel edgeBody) = 16" "vec_y (vel edgeBody) = 0" "vec_z (vel edgeBody) = 0"
    "mass edgeBody = 1" "size3D edgeBody = 2"
    by (simp_all add: edgeBody_def)
  have c: "fl 0.00001 = 5902958103587057 / 2 ^ 69"
    by (subst fl_down [where k = 17]) (simp_all add: rne_def)
  have t: "fl (4096 * (5902958103587057 / 2 ^ 69)) = 5902958103587057 / 2 ^ 57"
    by (subst fl_down [where k = 5]) (simp_all add: rne_def)
  have v1: "fl (16 - 5902958103587057 / 2 ^ 57) = 8984140824648855 / 2 ^ 49"
    by (subst fl_up [where e = 3]) (simp_all add: rne_def)
  have hf: "fl (8984140824648855 / 2 ^ 49 * (1 / 2)) = 8984140824648855 / 2 ^ 50"
    by (subst fl_up [where e = 2]) (simp_all add: rne_def)
  have p: "fl (4096 + 8984140824648855 / 2 ^ 50) = 4512373202394567 / 2 ^ 40"
    by (subst fl_up [where e = 12]) (simp_all add: rne_def)
  have e8: "fl 0.8 = 3602879701896397 / 2 ^ 52"
    by (subst fl_down [where k = 1]) (simp_all add: rne_def)
  have v2: "fl (8984140824648855 / 2 ^ 49 * - (3602879701896397 / 2 ^ 52))
      = - (1796828164929771 / 2 ^ 47)"
    by (subst fl_up [where e = 3]) (simp_all add: rne_def)
  have X: "vec_x (pos b) = 4512373202394567 / 2 ^ 40"
    unfolding px e c t v1 hf p ..
  have far: "\<bar>4512373202394567 / 2 ^ 40 :: real\<bar> > 4000" by simp
  have VX: "vec_x (vel b) = - (1796828164929771 / 2 ^ 47)"
    unfolding vx X e c t v1 e8 v2 using far by (simp only: if_True)
  have Y: "vec_y (pos b) = 0" "vec_z (pos b) = 0"
    unfolding py pz e by simp_all
  have VY: "vec_y (vel b) = 0" "vec_z (vel b) = 0"
    unfolding vy vz Y e by simp_all
  have "b = \<lparr>pos = \<lparr>vec_x = 4512373202394567 / 2 ^ 40, vec_y = 0, vec_z = 0\<rparr>,
            vel = \<lparr>vec_x = - (1796828164929771 / 2 ^ 47), vec_y = 0, vec_z = 0\<rparr>,
            mass = 1, size3D = 2\<rparr>"
    using m X Y VX VY e by (cases b, cases "pos b", cases "vel b") simp
  with r have 4: "updatePhysics (1/2) [edgeBody] =
     Some ([\<lparr>pos = \<lparr>vec_x = 4512373202394567 / 2 ^ 40, vec_y = 0, vec_z = 0\<rparr>,
            vel = \<lparr>vec_x = - (1796828164929771 / 2 ^ 47), vec_y = 0, vec_z = 0\<rparr>,
            mass = 1, size3D = 2\<rparr>], 0)"
    by simp
  from 1 2 3 4 show ?thesis by simp
qed

end
